theory Spec2Isabelle
  imports Main "HOL-Library.Sublist"
begin

section \<open>Data model\<close>

text \<open>
  \<^verbatim>\<open>prompts.ts\<close>: the strictness levels and the record of the user's selections.
  The TypeScript interface declares all three fields \<^verbatim>\<open>readonly\<close>. The record type
  holds the three values; the section on the record as an object keeps it in a store.
\<close>

datatype TsStrictness = Relaxed | Moderate | Strict

record UserChoices =
  projectName :: string
  tsStrictness :: TsStrictness
  initGit :: bool

text \<open>
  The file system is a finite tree, seen as a map from absolute paths (lists of path
  components below the root) to nodes. The root itself is a directory that always exists.
  Strings are byte strings; every literal the program matches on is ASCII. Permissions,
  quotas and device errors are outside this file system: what makes a call fail is the
  shape of the tree and the length and bytes of the path.
\<close>

type_synonym path = "string list"

datatype node = File string | Dir

type_synonym fsys = "path \<Rightarrow> node option"

datatype error =
    FsError string
  | ExecError string
  | Error string

text \<open>What the process does to the outside world, in the order in which it does it.\<close>

datatype event =
    FsWrite path
  | Exec string "string list" path
  | SpinnerStart string
  | SpinnerStop string
  | UiIntro
  | UiCancel string
  | UiNote string
  | UiOutro string string
  | ConsoleClear
  | ConsoleLog
  | ConsoleError error

text \<open>
  An awaited call returns a value, throws, ends the process (\<^verbatim>\<open>process.exit\<close>), or never
  returns because the terminal is still waiting for an answer.
\<close>

datatype 'a result = Ok 'a | Throw error | Exit nat | Blocked

text \<open>A call acts on a state: the file system, or later the file system with the objects.\<close>

type_synonym ('a, 's) action = "'s \<Rightarrow> 'a result \<times> 's \<times> event list"

type_synonym 'a io = "('a, fsys) action"

definition returnIO :: "'a \<Rightarrow> ('a, 's) action" where
  "returnIO x = (\<lambda>fs. (Ok x, fs, []))"

definition throwIO :: "error \<Rightarrow> ('a, 's) action" where
  "throwIO e = (\<lambda>fs. (Throw e, fs, []))"

definition exitIO :: "nat \<Rightarrow> ('a, 's) action" where
  "exitIO n = (\<lambda>fs. (Exit n, fs, []))"

definition emit :: "event \<Rightarrow> (unit, 's) action" where
  "emit e = (\<lambda>fs. (Ok (), fs, [e]))"

text \<open>Sequencing of awaited calls: the second one starts only when the first has returned.\<close>

definition bindIO :: "('a, 's) action \<Rightarrow> ('a \<Rightarrow> ('b, 's) action) \<Rightarrow> ('b, 's) action" where
  "bindIO m f = (\<lambda>fs.
     case m fs of
       (Ok a, fs1, ev1) \<Rightarrow> (case f a fs1 of (r, fs2, ev2) \<Rightarrow> (r, fs2, ev1 @ ev2))
     | (Throw e, fs1, ev1) \<Rightarrow> (Throw e, fs1, ev1)
     | (Exit n, fs1, ev1) \<Rightarrow> (Exit n, fs1, ev1)
     | (Blocked, fs1, ev1) \<Rightarrow> (Blocked, fs1, ev1))"

text \<open>\<^verbatim>\<open>try { m } catch (e) { h e }\<close>: only a thrown error reaches the handler.\<close>

definition tryCatch :: "('a, 's) action \<Rightarrow> (error \<Rightarrow> ('a, 's) action) \<Rightarrow> ('a, 's) action" where
  "tryCatch m h = (\<lambda>fs.
     case m fs of
       (Throw e, fs1, ev1) \<Rightarrow> (case h e fs1 of (r, fs2, ev2) \<Rightarrow> (r, fs2, ev1 @ ev2))
     | (r, fs1, ev1) \<Rightarrow> (r, fs1, ev1))"

section \<open>Paths (Node's \<^verbatim>\<open>path\<close> module, POSIX flavour)\<close>

fun splitOn :: "char \<Rightarrow> string \<Rightarrow> string list" where
  "splitOn d [] = [[]]"
| "splitOn d (c # cs) =
     (if c = d then [] # splitOn d cs
      else (case splitOn d cs of [] \<Rightarrow> [[c]] | s # ss \<Rightarrow> (c # s) # ss))"

text \<open>Normalisation of one segment: empty and \<^verbatim>\<open>.\<close> are dropped, \<^verbatim>\<open>..\<close> goes up.\<close>

definition pathStep :: "path \<Rightarrow> string \<Rightarrow> path" where
  "pathStep p seg =
     (if seg = [] \<or> seg = ''.'' then p
      else if seg = ''..'' then butlast p
      else p @ [seg])"

definition path_join :: "path \<Rightarrow> string list \<Rightarrow> path" where
  "path_join p segs = foldl pathStep p (concat (map (splitOn CHR ''/'') segs))"

text \<open>\<^verbatim>\<open>path.resolve(process.cwd(), name)\<close>: an absolute \<^verbatim>\<open>name\<close> replaces the working directory.\<close>

definition path_resolve :: "path \<Rightarrow> string \<Rightarrow> path" where
  "path_resolve wd name =
     (case name of
        [] \<Rightarrow> wd
      | c # cs \<Rightarrow> foldl pathStep (if c = CHR ''/'' then [] else wd) (splitOn CHR ''/'' name))"

section \<open>File-system calls (\<^verbatim>\<open>fs-extra\<close>)\<close>

definition nodeAt :: "fsys \<Rightarrow> path \<Rightarrow> node option" where
  "nodeAt fs p = (if p = [] then Some Dir else fs p)"

text \<open>
  What the system refuses before it looks at the disk (Linux limits): Node rejects a
  path with a NUL byte, the kernel a component of more than 255 bytes and a path of more
  than 4095 bytes (one separator before each component).
\<close>

definition pathLength :: "path \<Rightarrow> nat" where
  "pathLength p = sum_list (map (\<lambda>c. Suc (length c)) p)"

definition pathError :: "path \<Rightarrow> error option" where
  "pathError p =
     (if list_ex (\<lambda>c. CHR 0x00 \<in> set c) p then Some (Error ''ERR_INVALID_ARG_VALUE'')
      else if list_ex (\<lambda>c. 255 < length c) p \<or> 4095 < pathLength p
      then Some (FsError ''ENAMETOOLONG'')
      else None)"

text \<open>\<^verbatim>\<open>fs.existsSync\<close> answers false whenever the path cannot be looked up.\<close>

definition existsSync :: "fsys \<Rightarrow> path \<Rightarrow> bool" where
  "existsSync fs p = (pathError p = None \<and> nodeAt fs p \<noteq> None)"

text \<open>
  A lookup that finds nothing fails with \<^verbatim>\<open>ENOTDIR\<close> when a file is in the place of one of
  the ancestors, and with \<^verbatim>\<open>ENOENT\<close> otherwise.
\<close>

definition fileAbove :: "fsys \<Rightarrow> path \<Rightarrow> bool" where
  "fileAbove fs p =
     list_ex (\<lambda>q. case fs q of Some (File c) \<Rightarrow> True | _ \<Rightarrow> False) (tl (prefixes (butlast p)))"

definition lookupError :: "fsys \<Rightarrow> path \<Rightarrow> error" where
  "lookupError fs p = FsError (if fileAbove fs p then ''ENOTDIR'' else ''ENOENT'')"

text \<open>
  \<^verbatim>\<open>mkdir -p\<close>: walks the ancestors from the top, creating the missing ones. A file in
  the place of an ancestor is \<^verbatim>\<open>ENOTDIR\<close>, a file in the place of the directory itself
  \<^verbatim>\<open>EEXIST\<close>.
\<close>

fun mkdirs :: "path list \<Rightarrow> fsys \<Rightarrow> unit result \<times> fsys \<times> event list" where
  "mkdirs [] fs = (Ok (), fs, [])"
| "mkdirs (q # qs) fs =
     (case fs q of
        Some (File c) \<Rightarrow> (Throw (FsError (if qs = [] then ''EEXIST'' else ''ENOTDIR'')), fs, [])
      | Some Dir \<Rightarrow> mkdirs qs fs
      | None \<Rightarrow> (case mkdirs qs (fs(q \<mapsto> Dir)) of (r, fs1, ev) \<Rightarrow> (r, fs1, FsWrite q # ev)))"

definition ensureDir :: "path \<Rightarrow> unit io" where
  "ensureDir p = (\<lambda>fs.
     case pathError p of
       Some err \<Rightarrow> (Throw err, fs, [])
     | None \<Rightarrow> mkdirs (tl (prefixes p)) fs)"

fun stripPrefix :: "'a list \<Rightarrow> 'a list \<Rightarrow> 'a list option" where
  "stripPrefix [] ys = Some ys"
| "stripPrefix (x # xs) [] = None"
| "stripPrefix (x # xs) (y # ys) = (if x = y then stripPrefix xs ys else None)"

text \<open>
  \<^verbatim>\<open>fs.copy(src, dest)\<close> with the default options (overwrite): a file is copied over
  whatever file is at \<^verbatim>\<open>dest\<close>, after the parent of \<^verbatim>\<open>dest\<close> has been created; a directory
  is copied with everything below it, entry by entry.
\<close>

definition copy :: "path \<Rightarrow> path \<Rightarrow> unit io" where
  "copy src dest = (\<lambda>fs.
     case pathError src of
       Some err \<Rightarrow> (Throw err, fs, [])
     | None \<Rightarrow>
      (case nodeAt fs src of
         None \<Rightarrow> (Throw (lookupError fs src), fs, [])
       | Some n \<Rightarrow>
        (case pathError dest of
           Some err \<Rightarrow> (Throw err, fs, [])
         | None \<Rightarrow>
             if src = dest
             then (Throw (FsError ''Source and destination must not be the same.''), fs, [])
             else
              (case n of
                 File c \<Rightarrow>
                   (case nodeAt fs dest of
                      Some Dir \<Rightarrow>
                        (Throw (FsError ''Cannot overwrite directory with non-directory''), fs, [])
                    | _ \<Rightarrow>
                        (if fileAbove fs dest then (Throw (FsError ''ENOTDIR''), fs, [])
                         else bindIO (ensureDir (butlast dest))
                                (\<lambda>_ fs1. (Ok (), fs1(dest \<mapsto> File c), [FsWrite dest])) fs))
               | Dir \<Rightarrow>
                   (if prefix src dest
                    then (Throw (FsError ''Cannot copy to a subdirectory of itself''), fs, [])
                    else
                     (case nodeAt fs dest of
                        Some (File c) \<Rightarrow>
                          (Throw (FsError ''Cannot overwrite non-directory with directory''),
                           fs, [])
                      | _ \<Rightarrow>
                          (if fileAbove fs dest then (Throw (FsError ''ENOTDIR''), fs, [])
                           else bindIO (ensureDir dest)
                                  (\<lambda>_ fs1.
                                     (Ok (),
                                      (\<lambda>q. case stripPrefix dest q of
                                             None \<Rightarrow> fs1 q
                                           | Some r \<Rightarrow>
                                               (case nodeAt fs1 (src @ r) of
                                                  None \<Rightarrow> fs1 q
                                                | Some m \<Rightarrow> Some m)),
                                      [FsWrite dest])) fs)))))))"

text \<open>
  \<^verbatim>\<open>fs.readFile(p, "utf-8")\<close> decodes the bytes of the file. Text is kept here in its
  UTF-8 encoding, so decoding leaves well-formed sequences as they are and puts U+FFFD
  (\<^verbatim>\<open>EF BF BD\<close>) in the place of each ill-formed one, as the UTF-8 decoder of the
  Encoding Standard does: a lead byte fixes how many continuation bytes follow and the
  range of the first of them; a byte that does not fit ends the sequence with an error
  and is looked at again as a first byte.
\<close>

definition replacementChar :: string where
  "replacementChar = [CHR 0xEF, CHR 0xBF, CHR 0xBD]"

type_synonym decoderState = "nat \<times> nat \<times> nat \<times> string"

definition startByte :: "char \<Rightarrow> string \<times> decoderState" where
  "startByte b =
     (let n = (of_char b :: nat) in
      if n \<le> 0x7F then ([b], (0, 0x80, 0xBF, []))
      else if 0xC2 \<le> n \<and> n \<le> 0xDF then ([], (1, 0x80, 0xBF, [b]))
      else if 0xE0 \<le> n \<and> n \<le> 0xEF
      then ([], (2, (if n = 0xE0 then 0xA0 else 0x80), (if n = 0xED then 0x9F else 0xBF), [b]))
      else if 0xF0 \<le> n \<and> n \<le> 0xF4
      then ([], (3, (if n = 0xF0 then 0x90 else 0x80), (if n = 0xF4 then 0x8F else 0xBF), [b]))
      else (replacementChar, (0, 0x80, 0xBF, [])))"

fun decodeFrom :: "decoderState \<Rightarrow> string \<Rightarrow> string" where
  "decodeFrom (needed, lower, upper, pending) [] =
     (if needed = 0 then [] else replacementChar)"
| "decodeFrom (needed, lower, upper, pending) (b # bs) =
     (if needed = 0
      then (case startByte b of (out, st) \<Rightarrow> out @ decodeFrom st bs)
      else if (of_char b :: nat) < lower \<or> upper < (of_char b :: nat)
      then (case startByte b of (out, st) \<Rightarrow> replacementChar @ out @ decodeFrom st bs)
      else if needed = 1
      then pending @ [b] @ decodeFrom (0, 0x80, 0xBF, []) bs
      else decodeFrom (needed - 1, 0x80, 0xBF, pending @ [b]) bs)"

definition decodeUtf8 :: "string \<Rightarrow> string" where
  "decodeUtf8 bytes = decodeFrom (0, 0x80, 0xBF, []) bytes"

definition readFile :: "path \<Rightarrow> string io" where
  "readFile p = (\<lambda>fs.
     case pathError p of
       Some err \<Rightarrow> (Throw err, fs, [])
     | None \<Rightarrow>
      (case nodeAt fs p of
         Some (File c) \<Rightarrow> (Ok (decodeUtf8 c), fs, [])
       | Some Dir \<Rightarrow> (Throw (FsError ''EISDIR''), fs, [])
       | None \<Rightarrow> (Throw (lookupError fs p), fs, [])))"

text \<open>\<^verbatim>\<open>fs.writeFile(p, text)\<close> writes the UTF-8 encoding of the text, which is the text here.\<close>

definition writeFile :: "path \<Rightarrow> string \<Rightarrow> unit io" where
  "writeFile p content = (\<lambda>fs.
     case pathError p of
       Some err \<Rightarrow> (Throw err, fs, [])
     | None \<Rightarrow>
      (case nodeAt fs p of
         Some Dir \<Rightarrow> (Throw (FsError ''EISDIR''), fs, [])
       | _ \<Rightarrow>
           (if nodeAt fs (butlast p) = Some Dir
            then (Ok (), fs(p \<mapsto> File content), [FsWrite p])
            else (Throw (lookupError fs p), fs, []))))"

section \<open>The environment of one run\<close>

text \<open>
  What the program cannot decide itself: the working directory, the directory of the
  running script, what a subprocess does to the file system and whether it exits with
  code 0, and what the user types.
\<close>

datatype 'a answer = Cancelled | Answer 'a

record env =
  processCwd :: path
  currentDirectory :: path
  subprocess :: "string \<Rightarrow> string list \<Rightarrow> path \<Rightarrow> fsys \<Rightarrow> bool \<times> fsys"
  defaultBeforeValidate :: bool
  textInputs :: "string answer list"
  selectInput :: "TsStrictness answer"
  confirmInput :: "bool answer"

text \<open>\<^verbatim>\<open>execa(cmd, args, {cwd})\<close> rejects when the subprocess does not exit with code 0.\<close>

definition execa :: "env \<Rightarrow> string \<Rightarrow> string list \<Rightarrow> path \<Rightarrow> unit io" where
  "execa e cmd args wd = (\<lambda>fs.
     case subprocess e cmd args wd fs of
       (ok, fs1) \<Rightarrow> ((if ok then Ok () else Throw (ExecError cmd)), fs1, [Exec cmd args wd]))"

section \<open>Placeholder substitution (\<^verbatim>\<open>String.prototype.replace\<close> with a global regex)\<close>

definition placeholder :: string where
  "placeholder = ''{{PROJECT_NAME}}''"

text \<open>
  The replacement string is not inserted as it is: \<^verbatim>\<open>$$\<close>, \<^verbatim>\<open>$&\<close>, \<^verbatim>\<open>$`\<close> and \<^verbatim>\<open>$'\<close> are
  expanded. The regex has no capture group, so \<^verbatim>\<open>$1\<close> and \<^verbatim>\<open>$<x>\<close> stay literal.
\<close>

fun getSubstitution :: "string \<Rightarrow> string \<Rightarrow> string \<Rightarrow> string \<Rightarrow> string" where
  "getSubstitution matched preceding following [] = []"
| "getSubstitution matched preceding following [c] = [c]"
| "getSubstitution matched preceding following (c # d # r) =
     (if c = CHR ''$'' then
        (if d = CHR ''$'' then CHR ''$'' # getSubstitution matched preceding following r
         else if d = CHR ''&'' then matched @ getSubstitution matched preceding following r
         else if d = CHR 0x60 then preceding @ getSubstitution matched preceding following r
         else if d = CHR 0x27 then following @ getSubstitution matched preceding following r
         else c # getSubstitution matched preceding following (d # r))
      else c # getSubstitution matched preceding following (d # r))"

text \<open>Left to right, leftmost match first, matches do not overlap.\<close>

function replaceFrom :: "string \<Rightarrow> string \<Rightarrow> string \<Rightarrow> string" where
  "replaceFrom repl preceding [] = []"
| "replaceFrom repl preceding (c # s) =
     (if prefix placeholder (c # s)
      then getSubstitution placeholder preceding (drop (length placeholder) (c # s)) repl
           @ replaceFrom repl (preceding @ placeholder) (drop (length placeholder) (c # s))
      else c # replaceFrom repl (preceding @ [c]) s)"
  by pat_completeness auto
termination
  by (relation "measure (\<lambda>(repl, preceding, s). length s)") (auto simp: placeholder_def)

definition replacePlaceholder :: "string \<Rightarrow> string \<Rightarrow> string" where
  "replacePlaceholder template name = replaceFrom name [] template"

section \<open>\<^verbatim>\<open>actions.ts\<close>\<close>

definition getTemplatesDirectory :: "env \<Rightarrow> fsys \<Rightarrow> path" where
  "getTemplatesDirectory e fs =
     (let productionPath = path_join (currentDirectory e) [''templates''];
          developmentPath = path_join (currentDirectory e) [''..'', ''src'', ''templates'']
      in if existsSync fs productionPath then productionPath else developmentPath)"

fun tsStrictnessString :: "TsStrictness \<Rightarrow> string" where
  "tsStrictnessString Relaxed = ''relaxed''"
| "tsStrictnessString Moderate = ''moderate''"
| "tsStrictnessString Strict = ''strict''"

definition tsconfigSourcePath :: "path \<Rightarrow> TsStrictness \<Rightarrow> path" where
  "tsconfigSourcePath templatesDirectory s =
     path_join templatesDirectory [''tsconfig'', tsStrictnessString s @ ''.json'']"

definition copyProjectFiles :: "path \<Rightarrow> path \<Rightarrow> string \<Rightarrow> TsStrictness \<Rightarrow> unit io" where
  "copyProjectFiles templatesDirectory projectPath name s =
     bindIO (ensureDir (path_join projectPath [''src''])) (\<lambda>_.
     bindIO (copy (path_join templatesDirectory [''base'', ''src'', ''index.ts''])
                  (path_join projectPath [''src'', ''index.ts''])) (\<lambda>_.
     bindIO (copy (path_join templatesDirectory [''base'', ''gitignore''])
                  (path_join projectPath [''.gitignore''])) (\<lambda>_.
     bindIO (readFile (path_join templatesDirectory [''base'', ''package.template.json'']))
       (\<lambda>packageTemplateContent.
     bindIO (writeFile (path_join projectPath [''package.json''])
                       (replacePlaceholder packageTemplateContent name)) (\<lambda>_.
     copy (tsconfigSourcePath templatesDirectory s)
          (path_join projectPath [''tsconfig.json'']))))))"

definition installDependencies :: "env \<Rightarrow> path \<Rightarrow> unit io" where
  "installDependencies e projectPath =
     bindIO (execa e ''npm'' [''install''] projectPath) (\<lambda>_ fs.
       if \<not> existsSync fs (path_join projectPath [''package-lock.json''])
       then (Throw (Error ''package-lock.json was not generated''), fs, [])
       else (Ok (), fs, []))"

definition initializeGitRepository :: "env \<Rightarrow> path \<Rightarrow> unit io" where
  "initializeGitRepository e projectPath =
     bindIO (execa e ''git'' [''init''] projectPath) (\<lambda>_.
     bindIO (execa e ''git'' [''add'', ''.''] projectPath) (\<lambda>_.
     execa e ''git'' [''commit'', ''-m'', ''Initial commit from express-ts-wizard''] projectPath))"

definition checkMark :: string where
  "checkMark = [CHR 0xE2, CHR 0x9C, CHR 0x93]"

definition createProject :: "env \<Rightarrow> UserChoices \<Rightarrow> unit io" where
  "createProject e choices = (\<lambda>fs.
     let projectPath = path_resolve (processCwd e) (projectName choices);
         templatesDirectory = getTemplatesDirectory e fs
     in
       if existsSync fs projectPath
       then bindIO (emit (UiCancel (''Directory '' @ [CHR 0x22] @ projectName choices
                                     @ [CHR 0x22] @ '' already exists.'')))
                   (\<lambda>_. exitIO 1) fs
       else
         bindIO (emit (SpinnerStart ''Creating project structure...'')) (\<lambda>_.
         bindIO (tryCatch
                   (bindIO (copyProjectFiles templatesDirectory projectPath
                              (projectName choices) (tsStrictness choices))
                      (\<lambda>_. emit (SpinnerStop (''Project structure created '' @ checkMark))))
                   (\<lambda>err. bindIO (emit (SpinnerStop ''Error creating structure''))
                             (\<lambda>_. throwIO err))) (\<lambda>_.
         bindIO (emit (SpinnerStart ''Installing dependencies...'')) (\<lambda>_.
         bindIO (tryCatch
                   (bindIO (installDependencies e projectPath)
                      (\<lambda>_. emit (SpinnerStop (''Dependencies installed '' @ checkMark))))
                   (\<lambda>err. bindIO (emit (SpinnerStop ''Error installing dependencies''))
                             (\<lambda>_. throwIO err))) (\<lambda>_.
         if initGit choices
         then bindIO (emit (SpinnerStart ''Initializing Git...'')) (\<lambda>_.
              tryCatch
                (bindIO (initializeGitRepository e projectPath)
                   (\<lambda>_. emit (SpinnerStop (''Git initialized '' @ checkMark))))
                (\<lambda>err. emit (SpinnerStop ''Error initializing Git (may not be installed)'')))
         else returnIO ())))) fs)"

fun getTsStrictnessDescription :: "TsStrictness \<Rightarrow> string" where
  "getTsStrictnessDescription Relaxed = ''Relaxed (strict: false)''"
| "getTsStrictnessDescription Moderate = ''Moderate (strict: true)''"
| "getTsStrictnessDescription Strict = ''Strict (maximum options)''"

section \<open>\<^verbatim>\<open>prompts.ts\<close>\<close>

text \<open>
  The validator's regex is \<^verbatim>\<open>/^[a-z0-9-_]+$/i\<close>. Under the \<^verbatim>\<open>i\<close> flag a character matches
  the class when some member of the class has the same canonical (upper-case) form.
  Without the \<^verbatim>\<open>u\<close> flag a character outside ASCII is never canonicalised into ASCII.
\<close>

definition canonicalize :: "char \<Rightarrow> char" where
  "canonicalize c =
     (case map_of (zip ''abcdefghijklmnopqrstuvwxyz'' ''ABCDEFGHIJKLMNOPQRSTUVWXYZ'') c of
        Some u \<Rightarrow> u
      | None \<Rightarrow> c)"

definition classChars :: string where
  "classChars = ''abcdefghijklmnopqrstuvwxyz0123456789-_''"

definition matchesClassIgnoreCase :: "char \<Rightarrow> bool" where
  "matchesClassIgnoreCase ch = list_ex (\<lambda>m. canonicalize m = canonicalize ch) classChars"

definition regexTest :: "string \<Rightarrow> bool" where
  "regexTest v = (v \<noteq> [] \<and> list_all matchesClassIgnoreCase v)"

definition validateName :: "string \<Rightarrow> string option" where
  "validateName v =
     (if v = [] then Some ''Project name is required''
      else if \<not> regexTest v then Some ''Only letters, numbers, hyphens and underscores allowed''
      else None)"

text \<open>
  The interactive prompt renderer (\<^verbatim>\<open>@clack/prompts\<close>) is an external library. It
  provides three typed answers: a validated string, an enum selection, a boolean. The
  text prompt asks again until the validator accepts the submitted value or the user
  cancels. An empty submission stands for the default value, before or after validation
  depending on the library's version.
\<close>

fun textPrompt ::
  "(string \<Rightarrow> string option) \<Rightarrow> string \<Rightarrow> bool \<Rightarrow> string answer list \<Rightarrow> string answer option"
where
  "textPrompt validate dflt early [] = None"
| "textPrompt validate dflt early (Cancelled # rest) = Some Cancelled"
| "textPrompt validate dflt early (Answer raw # rest) =
     (let v = (if early \<and> raw = [] then dflt else raw)
      in case validate v of
           None \<Rightarrow> Some (Answer (if v = [] then dflt else v))
         | Some problem \<Rightarrow> textPrompt validate dflt early rest)"

text \<open>
  One prompt of \<^verbatim>\<open>p.group\<close>: a cancelled prompt runs \<^verbatim>\<open>onCancel\<close>, which prints a message
  and calls \<^verbatim>\<open>process.exit(0)\<close>.
\<close>

definition promptOrCancel :: "'a answer option \<Rightarrow> ('a, 's) action" where
  "promptOrCancel a =
     (case a of
        None \<Rightarrow> (\<lambda>fs. (Blocked, fs, []))
      | Some Cancelled \<Rightarrow> bindIO (emit (UiCancel ''Operation cancelled.'')) (\<lambda>_. exitIO 0)
      | Some (Answer x) \<Rightarrow> returnIO x)"

definition runPrompts :: "env \<Rightarrow> UserChoices option io" where
  "runPrompts e =
     bindIO (emit UiIntro) (\<lambda>_.
     bindIO (promptOrCancel
               (textPrompt validateName ''my-express-app'' (defaultBeforeValidate e) (textInputs e)))
       (\<lambda>name.
     bindIO (promptOrCancel (Some (selectInput e))) (\<lambda>s.
     bindIO (promptOrCancel (Some (confirmInput e))) (\<lambda>g.
     returnIO (Some \<lparr>projectName = name, tsStrictness = s, initGit = g\<rparr>)))))"

section \<open>\<^verbatim>\<open>index.ts\<close>\<close>

text \<open>Terminal styling is left out: the note keeps its first line, the outro its two values.\<close>

definition displaySuccessMessage :: "string \<Rightarrow> string \<Rightarrow> (unit, 's) action" where
  "displaySuccessMessage name strictnessDescription =
     bindIO (emit (UiNote (''cd '' @ name))) (\<lambda>_. emit (UiOutro name strictnessDescription))"

definition main :: "env \<Rightarrow> unit io" where
  "main e =
     bindIO (emit ConsoleClear) (\<lambda>_.
     bindIO (runPrompts e) (\<lambda>choices.
       case choices of
         None \<Rightarrow> exitIO 0
       | Some c \<Rightarrow>
           bindIO (emit ConsoleLog) (\<lambda>_.
           tryCatch
             (bindIO (createProject e c) (\<lambda>_.
                displaySuccessMessage (projectName c) (getTsStrictnessDescription (tsStrictness c))))
             (\<lambda>err. bindIO (emit (UiCancel ''Error creating project'')) (\<lambda>_.
                     bindIO (emit (ConsoleError err)) (\<lambda>_. exitIO 1))))))"

text \<open>
  The exit code of the process once \<^verbatim>\<open>main()\<close> has settled: 0 when it returns, the
  argument of \<^verbatim>\<open>process.exit\<close>, 1 for a rejection nobody handles; none while it waits.
\<close>

fun processExitCode :: "unit result \<Rightarrow> nat option" where
  "processExitCode (Ok u) = Some 0"
| "processExitCode (Exit n) = Some n"
| "processExitCode (Throw err) = Some 1"
| "processExitCode Blocked = None"

section \<open>The record of choices as an object\<close>

text \<open>
  In the program the record of choices is an object: \<^verbatim>\<open>runPrompts\<close> returns a reference
  to it, \<^verbatim>\<open>main\<close> hands that reference to \<^verbatim>\<open>createProject\<close> and reads two properties
  again afterwards. To speak about what happens to the object, the same three functions
  are written once more over a state that holds the objects beside the file system. A
  reference is an index into the list of objects. The calls that receive only strings
  (the materializer, the installer, the Git commands) act on the file system alone.
\<close>

record world =
  files :: fsys
  objects :: "UserChoices list"

definition liftFs :: "('a, fsys) action \<Rightarrow> ('a, world) action" where
  "liftFs m = (\<lambda>w. case m (files w) of (r, fs1, ev) \<Rightarrow> (r, w\<lparr>files := fs1\<rparr>, ev))"

definition newObject :: "UserChoices \<Rightarrow> (nat, world) action" where
  "newObject c = (\<lambda>w. (Ok (length (objects w)), w\<lparr>objects := objects w @ [c]\<rparr>, []))"

text \<open>Reading the properties of an object; a reference to nothing is a \<^verbatim>\<open>TypeError\<close>.\<close>

definition getObject :: "nat \<Rightarrow> (UserChoices, world) action" where
  "getObject r = (\<lambda>w.
     if r < length (objects w) then (Ok (objects w ! r), w, [])
     else (Throw (Error ''TypeError''), w, []))"

definition runPrompts_obj :: "env \<Rightarrow> (nat option, world) action" where
  "runPrompts_obj e =
     bindIO (emit UiIntro) (\<lambda>_.
     bindIO (promptOrCancel
               (textPrompt validateName ''my-express-app'' (defaultBeforeValidate e) (textInputs e)))
       (\<lambda>name.
     bindIO (promptOrCancel (Some (selectInput e))) (\<lambda>s.
     bindIO (promptOrCancel (Some (confirmInput e))) (\<lambda>g.
     bindIO (newObject \<lparr>projectName = name, tsStrictness = s, initGit = g\<rparr>) (\<lambda>project.
     returnIO (Some project))))))"

text \<open>
  \<^verbatim>\<open>const { projectName, tsStrictness, initGit } = choices\<close> reads the object once; the
  three locals are the fields of the value read.
\<close>

definition createProject_obj :: "env \<Rightarrow> nat \<Rightarrow> (unit, world) action" where
  "createProject_obj e choices =
     bindIO (getObject choices) (\<lambda>locals w.
     let projectPath = path_resolve (processCwd e) (projectName locals);
         templatesDirectory = getTemplatesDirectory e (files w)
     in
       if existsSync (files w) projectPath
       then bindIO (emit (UiCancel (''Directory '' @ [CHR 0x22] @ projectName locals
                                     @ [CHR 0x22] @ '' already exists.'')))
                   (\<lambda>_. exitIO 1) w
       else
         bindIO (emit (SpinnerStart ''Creating project structure...'')) (\<lambda>_.
         bindIO (tryCatch
                   (bindIO (liftFs (copyProjectFiles templatesDirectory projectPath
                              (projectName locals) (tsStrictness locals)))
                      (\<lambda>_. emit (SpinnerStop (''Project structure created '' @ checkMark))))
                   (\<lambda>err. bindIO (emit (SpinnerStop ''Error creating structure''))
                             (\<lambda>_. throwIO err))) (\<lambda>_.
         bindIO (emit (SpinnerStart ''Installing dependencies...'')) (\<lambda>_.
         bindIO (tryCatch
                   (bindIO (liftFs (installDependencies e projectPath))
                      (\<lambda>_. emit (SpinnerStop (''Dependencies installed '' @ checkMark))))
                   (\<lambda>err. bindIO (emit (SpinnerStop ''Error installing dependencies''))
                             (\<lambda>_. throwIO err))) (\<lambda>_.
         if initGit locals
         then bindIO (emit (SpinnerStart ''Initializing Git...'')) (\<lambda>_.
              tryCatch
                (bindIO (liftFs (initializeGitRepository e projectPath))
                   (\<lambda>_. emit (SpinnerStop (''Git initialized '' @ checkMark))))
                (\<lambda>err. emit (SpinnerStop ''Error initializing Git (may not be installed)'')))
         else returnIO ())))) w)"

definition main_obj :: "env \<Rightarrow> (unit, world) action" where
  "main_obj e =
     bindIO (emit ConsoleClear) (\<lambda>_.
     bindIO (runPrompts_obj e) (\<lambda>choices.
       case choices of
         None \<Rightarrow> exitIO 0
       | Some c \<Rightarrow>
           bindIO (emit ConsoleLog) (\<lambda>_.
           tryCatch
             (bindIO (createProject_obj e c) (\<lambda>_.
              bindIO (getObject c) (\<lambda>forStrictness.
              bindIO (getObject c) (\<lambda>forName.
                displaySuccessMessage (projectName forName)
                  (getTsStrictnessDescription (tsStrictness forStrictness))))))
             (\<lambda>err. bindIO (emit (UiCancel ''Error creating project'')) (\<lambda>_.
                     bindIO (emit (ConsoleError err)) (\<lambda>_. exitIO 1))))))"

section \<open>Notions used by the properties\<close>

text \<open>The pattern of the specification, \<^verbatim>\<open>[A-Za-z0-9_-]+\<close>, written out.\<close>

definition specNameChars :: string where
  "specNameChars = ''ABCDEFGHIJKLMNOPQRSTUVWXYZabcdefghijklmnopqrstuvwxyz0123456789_-''"

definition matchesSpecPattern :: "string \<Rightarrow> bool" where
  "matchesSpecPattern v = (v \<noteq> [] \<and> list_all (\<lambda>c. c \<in> set specNameChars) v)"

fun isWrite :: "event \<Rightarrow> bool" where
  "isWrite (FsWrite p) = True"
| "isWrite _ = False"

fun isNpm :: "event \<Rightarrow> bool" where
  "isNpm (Exec cmd args wd) = (cmd = ''npm'')"
| "isNpm _ = False"

fun isGit :: "event \<Rightarrow> bool" where
  "isGit (Exec cmd args wd) = (cmd = ''git'')"
| "isGit _ = False"

text \<open>
  The pipeline stage an event belongs to: 1 for a write of the materializer, 2 for the
  install subprocess, 3 for a VCS subprocess. Messages belong to no stage. A run is
  sequential when the stages of its events never go down.
\<close>

fun stageOf :: "event \<Rightarrow> nat option" where
  "stageOf (FsWrite p) = Some 1"
| "stageOf (Exec cmd args wd) =
     (if cmd = ''npm'' then Some 2 else if cmd = ''git'' then Some 3 else Some 0)"
| "stageOf _ = None"

definition stagesOf :: "event list \<Rightarrow> nat list" where
  "stagesOf evs = List.map_filter stageOf evs"

text \<open>
  Every existing entry has a path that the system accepts, and every ancestor of it is
  a directory.
\<close>

definition treeShaped :: "fsys \<Rightarrow> bool" where
  "treeShaped fs =
     (\<forall>p. fs p \<noteq> None \<longrightarrow>
        pathError p = None \<and> (\<forall>q. strict_prefix q p \<longrightarrow> nodeAt fs q = Some Dir))"

text \<open>
  Modelled from the spec: the template store (the files below \<^verbatim>\<open>src/templates\<close>; the
  manifest template, the ignore rules and the three tsconfig variants are not among the
  sources), "a static, read-only set of file templates (server entry point, ignore
  rules, manifest template, three tsconfig variants) keyed by strictness level". The
  contents are parameters; the file names are those \<^verbatim>\<open>copyProjectFiles\<close> reads.
\<close>

definition templateStore ::
  "path \<Rightarrow> string \<Rightarrow> string \<Rightarrow> string \<Rightarrow> (TsStrictness \<Rightarrow> string) \<Rightarrow> fsys" where
  "templateStore td indexTs gitignore packageTemplate tsconfig =
     [td @ [''base'', ''src'', ''index.ts''] \<mapsto> File indexTs,
      td @ [''base'', ''gitignore''] \<mapsto> File gitignore,
      td @ [''base'', ''package.template.json''] \<mapsto> File packageTemplate,
      td @ [''tsconfig'', ''relaxed.json''] \<mapsto> File (tsconfig Relaxed),
      td @ [''tsconfig'', ''moderate.json''] \<mapsto> File (tsconfig Moderate),
      td @ [''tsconfig'', ''strict.json''] \<mapsto> File (tsconfig Strict)]"

text \<open>
  A manifest template names the project at least once, and opens a double brace only
  to start the placeholder.
\<close>

definition manifestTemplateOk :: "string \<Rightarrow> bool" where
  "manifestTemplateOk t =
     (sublist placeholder t
      \<and> list_all (\<lambda>u. prefix ''{{'' u \<longrightarrow> prefix placeholder u) (suffixes t))"

text \<open>The user cancels at the first, the second or the third prompt.\<close>

definition userCancels :: "env \<Rightarrow> bool" where
  "userCancels e =
     (case textPrompt validateName ''my-express-app'' (defaultBeforeValidate e) (textInputs e) of
        None \<Rightarrow> False
      | Some Cancelled \<Rightarrow> True
      | Some (Answer n) \<Rightarrow>
          (case selectInput e of
             Cancelled \<Rightarrow> True
           | Answer s \<Rightarrow> confirmInput e = Cancelled))"

text \<open>The target path and the materializer as \<^verbatim>\<open>createProject\<close> calls it.\<close>

definition projectPathOf :: "env \<Rightarrow> UserChoices \<Rightarrow> path" where
  "projectPathOf e c = path_resolve (processCwd e) (projectName c)"

definition materialize :: "env \<Rightarrow> UserChoices \<Rightarrow> unit io" where
  "materialize e c = (\<lambda>fs.
     copyProjectFiles (getTemplatesDirectory e fs) (projectPathOf e c)
       (projectName c) (tsStrictness c) fs)"

text \<open>A call settles when it returns or throws.\<close>

fun settles :: "'a result \<Rightarrow> bool" where
  "settles (Ok a) = True"
| "settles (Throw err) = True"
| "settles (Exit n) = False"
| "settles Blocked = False"

text \<open>The progress messages of \<^verbatim>\<open>createProject\<close>.\<close>

definition evCreating :: event where "evCreating = SpinnerStart ''Creating project structure...''"
definition evCreated :: event where "evCreated = SpinnerStop (''Project structure created '' @ checkMark)"
definition evInstalling :: event where "evInstalling = SpinnerStart ''Installing dependencies...''"
definition evInstalled :: event where "evInstalled = SpinnerStop (''Dependencies installed '' @ checkMark)"
definition evGitStart :: event where "evGitStart = SpinnerStart ''Initializing Git...''"
definition evGitDone :: event where "evGitDone = SpinnerStop (''Git initialized '' @ checkMark)"

section \<open>An example run\<close>

text \<open>
  The example scenario of the specification: project \<^verbatim>\<open>demo-app\<close>, strictness \<^verbatim>\<open>strict\<close>,
  Git requested, in a working directory that holds no such project. The package is
  installed below \<^verbatim>\<open>/pkg\<close>; \<^verbatim>\<open>npm install\<close> writes the lock file; Git is not installed.
\<close>

definition demoTemplate :: string where
  "demoTemplate = ''{name: {{PROJECT_NAME}}, bin: {{PROJECT_NAME}}}''"

fun demoTsconfig :: "TsStrictness \<Rightarrow> string" where
  "demoTsconfig Relaxed = ''{strict: false}''"
| "demoTsconfig Moderate = ''{strict: true}''"
| "demoTsconfig Strict = ''{strict: true, noImplicitReturns: true}''"

definition demoEntries :: "(path \<times> node) list" where
  "demoEntries =
     [([''work''], Dir),
      ([''pkg''], Dir),
      ([''pkg'', ''templates''], Dir),
      ([''pkg'', ''templates'', ''base''], Dir),
      ([''pkg'', ''templates'', ''base'', ''src''], Dir),
      ([''pkg'', ''templates'', ''base'', ''src'', ''index.ts''], File ''app.listen(PORT)''),
      ([''pkg'', ''templates'', ''base'', ''gitignore''], File ''node_modules''),
      ([''pkg'', ''templates'', ''base'', ''package.template.json''], File demoTemplate),
      ([''pkg'', ''templates'', ''tsconfig''], Dir),
      ([''pkg'', ''templates'', ''tsconfig'', ''relaxed.json''], File (demoTsconfig Relaxed)),
      ([''pkg'', ''templates'', ''tsconfig'', ''moderate.json''], File (demoTsconfig Moderate)),
      ([''pkg'', ''templates'', ''tsconfig'', ''strict.json''], File (demoTsconfig Strict))]"

definition demoFs :: fsys where
  "demoFs = map_of demoEntries"

definition demoSubprocess :: "string \<Rightarrow> string list \<Rightarrow> path \<Rightarrow> fsys \<Rightarrow> bool \<times> fsys" where
  "demoSubprocess cmd args wd fs =
     (if cmd = ''npm'' then (True, fs(wd @ [''package-lock.json''] \<mapsto> File ''{}''))
      else (False, fs))"

definition demoEnv :: env where
  "demoEnv =
     \<lparr>processCwd = [''work''],
      currentDirectory = [''pkg''],
      subprocess = demoSubprocess,
      defaultBeforeValidate = False,
      textInputs = [Answer ''my app'', Answer ''demo-app''],
      selectInput = Answer Strict,
      confirmInput = Answer True\<rparr>"

definition demoChoices :: UserChoices where
  "demoChoices = \<lparr>projectName = ''demo-app'', tsStrictness = Strict, initGit = True\<rparr>"

text \<open>What the materializer leaves behind in the example, and the writes it makes.\<close>

definition demoMaterialized :: "TsStrictness \<Rightarrow> fsys" where
  "demoMaterialized s =
     demoFs([''work'', ''demo-app''] \<mapsto> Dir,
            [''work'', ''demo-app'', ''src''] \<mapsto> Dir,
            [''work'', ''demo-app'', ''src'', ''index.ts''] \<mapsto> File ''app.listen(PORT)'',
            [''work'', ''demo-app'', ''.gitignore''] \<mapsto> File ''node_modules'',
            [''work'', ''demo-app'', ''package.json''] \<mapsto> File ''{name: demo-app, bin: demo-app}'',
            [''work'', ''demo-app'', ''tsconfig.json''] \<mapsto> File (demoTsconfig s))"

definition demoWrites :: "event list" where
  "demoWrites =
     [FsWrite [''work'', ''demo-app''],
      FsWrite [''work'', ''demo-app'', ''src''],
      FsWrite [''work'', ''demo-app'', ''src'', ''index.ts''],
      FsWrite [''work'', ''demo-app'', ''.gitignore''],
      FsWrite [''work'', ''demo-app'', ''package.json''],
      FsWrite [''work'', ''demo-app'', ''tsconfig.json'']]"

text \<open>
  A second example: the same installation, run in a working directory sixteen levels
  deep whose path takes 4073 bytes, so that the target path of \<^verbatim>\<open>demo-app\<close> takes 4082.
\<close>

definition deepCwd :: path where
  "deepCwd = replicate 15 (replicate 255 CHR ''d'') @ [replicate 232 CHR ''d'']"

definition deepFs :: fsys where
  "deepFs = (\<lambda>p. if p \<noteq> [] \<and> prefix p deepCwd then Some Dir else demoFs p)"

section \<open>The name validator and the target path\<close>

lemma matchesClass_iff: "matchesClassIgnoreCase c \<longleftrightarrow> c \<in> set specNameChars"
  unfolding matchesClassIgnoreCase_def canonicalize_def classChars_def specNameChars_def
  by (auto split: if_splits)

lemma validateName_iff: "(validateName v = None) = matchesSpecPattern v"
proof -
  have "matchesClassIgnoreCase = (\<lambda>c. c \<in> set specNameChars)"
    by (rule ext) (rule matchesClass_iff)
  then show ?thesis
    by (simp add: validateName_def regexTest_def matchesSpecPattern_def)
qed

lemma splitOn_no_sep: "d \<notin> set s \<Longrightarrow> splitOn d s = [s]"
  by (induction s) auto

lemma getSubstitution_verbatim:
  "CHR ''$'' \<notin> set r \<Longrightarrow> getSubstitution m b a r = r"
  by (induction m b a r rule: getSubstitution.induct) auto

lemma specNameChars_plain:
  "CHR ''/'' \<notin> set specNameChars" "CHR ''.'' \<notin> set specNameChars"
  "CHR ''$'' \<notin> set specNameChars" "CHR ''{'' \<notin> set specNameChars"
  by (simp_all add: specNameChars_def)

lemma spec_chars_no_nul: "matchesSpecPattern v \<Longrightarrow> CHR 0x00 \<notin> set v"
proof -
  assume "matchesSpecPattern v"
  then have "set v \<subseteq> set specNameChars"
    by (auto simp: matchesSpecPattern_def list_all_iff)
  moreover have "CHR 0x00 \<notin> set specNameChars"
    by (simp add: specNameChars_def)
  ultimately show ?thesis by blast
qed

lemma spec_chars_plain:
  assumes "matchesSpecPattern v"
  shows "CHR ''/'' \<notin> set v \<and> CHR ''.'' \<notin> set v \<and> CHR ''$'' \<notin> set v \<and> CHR ''{'' \<notin> set v"
proof -
  from assms have "set v \<subseteq> set specNameChars"
    by (auto simp: matchesSpecPattern_def list_all_iff)
  with specNameChars_plain show ?thesis by blast
qed

lemma path_resolve_child:
  assumes "matchesSpecPattern name"
  shows "path_resolve wd name = wd @ [name]"
proof -
  from assms obtain c cs where n: "name = c # cs"
    by (cases name) (auto simp: matchesSpecPattern_def)
  from spec_chars_plain[OF assms] have ns: "CHR ''/'' \<notin> set name" and nd: "CHR ''.'' \<notin> set name"
    by simp_all
  from nd have "name \<noteq> ''.''" "name \<noteq> ''..''" by auto
  with assms have step: "pathStep wd name = wd @ [name]"
    by (simp add: pathStep_def matchesSpecPattern_def)
  from ns n have "c \<noteq> CHR ''/''" by auto
  with n have "path_resolve wd name = foldl pathStep wd (splitOn CHR ''/'' name)"
    by (simp only: path_resolve_def list.case if_False)
  also have "\<dots> = pathStep wd name"
    by (simp only: splitOn_no_sep[OF ns] foldl.simps)
  finally show ?thesis using step by simp
qed

text \<open>
  C10. A project name that the validator accepts resolves to a direct child of the
  working directory: it has no path separator, no \<^verbatim>\<open>..\<close> and no \<^verbatim>\<open>$\<close>, so the expansion
  of the replacement string is the name itself, and a match of the placeholder is
  replaced by the name as it is.
\<close>

theorem C10_validated_name_is_direct_child:
  assumes "validateName name = None"
  shows "path_resolve wd name = wd @ [name]
       \<and> CHR ''/'' \<notin> set name
       \<and> \<not> sublist ''..'' name
       \<and> CHR ''$'' \<notin> set name
       \<and> getSubstitution matched preceding following name = name
       \<and> replaceFrom name preceding (placeholder @ rest)
           = name @ replaceFrom name (preceding @ placeholder) rest"
proof -
  from assms have v: "matchesSpecPattern name" by (simp add: validateName_iff)
  note pl = spec_chars_plain[OF v]
  have dots: "\<not> sublist ''..'' name"
  proof
    assume "sublist ''..'' name"
    then have "set ''..'' \<subseteq> set name" by (rule set_mono_sublist)
    with pl show False by simp
  qed
  have sub: "\<And>m b a. getSubstitution m b a name = name"
    using pl by (simp add: getSubstitution_verbatim)
  have "replaceFrom name preceding (placeholder @ rest)
           = name @ replaceFrom name (preceding @ placeholder) rest"
    by (simp add: placeholder_def sub)
  with path_resolve_child[OF v] pl dots sub show ?thesis by simp
qed

theorem C10_witness:
  "validateName ''demo-app'' = None
   \<and> path_resolve [''home'', ''user''] ''demo-app'' = [''home'', ''user'', ''demo-app'']"
  using C10_validated_name_is_direct_child [of "''demo-app''" "[''home'', ''user'']"]
  by (simp add: validateName_iff matchesSpecPattern_def specNameChars_def)

section \<open>Events of the stages\<close>

lemma bindIO_events:
  assumes "\<And>fs. list_all P (snd (snd (m fs)))"
    and "\<And>a fs. list_all P (snd (snd (f a fs)))"
  shows "list_all P (snd (snd (bindIO m f fs)))"
proof (cases "m fs")
  case (fields r fs1 ev1)
  with assms(1)[of fs] have p1: "list_all P ev1" by simp
  show ?thesis
  proof (cases r)
    case (Ok a)
    obtain r2 fs2 ev2 where f: "f a fs1 = (r2, fs2, ev2)" by (cases "f a fs1")
    with assms(2)[of a fs1] have "list_all P ev2" by simp
    with p1 fields Ok f show ?thesis by (simp add: bindIO_def)
  qed (use p1 fields in \<open>simp_all add: bindIO_def\<close>)
qed

lemma tryCatch_events:
  assumes "\<And>fs. list_all P (snd (snd (m fs)))"
    and "\<And>err fs. list_all P (snd (snd (h err fs)))"
  shows "list_all P (snd (snd (tryCatch m h fs)))"
proof (cases "m fs")
  case (fields r fs1 ev1)
  with assms(1)[of fs] have p1: "list_all P ev1" by simp
  show ?thesis
  proof (cases r)
    case (Throw err)
    obtain r2 fs2 ev2 where h: "h err fs1 = (r2, fs2, ev2)" by (cases "h err fs1")
    with assms(2)[of err fs1] have "list_all P ev2" by simp
    with p1 fields Throw h show ?thesis by (simp add: tryCatch_def)
  qed (use p1 fields in \<open>simp_all add: tryCatch_def\<close>)
qed

lemma basic_events [simp]:
  "snd (snd (emit x fs)) = [x]"
  "snd (snd (returnIO a fs)) = []"
  "snd (snd (throwIO err fs)) = []"
  "snd (snd (exitIO n fs)) = []"
  by (simp_all add: emit_def returnIO_def throwIO_def exitIO_def)

lemma mkdirs_events: "list_all isWrite (snd (snd (mkdirs qs fs)))"
proof (induction qs arbitrary: fs)
  case Nil
  show ?case by simp
next
  case (Cons q qs)
  show ?case
  proof (cases "fs q")
    case None
    obtain r fs1 ev where m: "mkdirs qs (fs(q \<mapsto> Dir)) = (r, fs1, ev)"
      by (cases "mkdirs qs (fs(q \<mapsto> Dir))")
    from Cons.IH[of "fs(q \<mapsto> Dir)"] have "list_all isWrite ev"
      unfolding m by simp
    with None m show ?thesis by simp
  next
    case (Some n)
    with Cons.IH[of fs] show ?thesis by (cases n) simp_all
  qed
qed

lemma ensureDir_events: "list_all isWrite (snd (snd (ensureDir p fs)))"
  by (simp add: ensureDir_def mkdirs_events split: option.splits)

lemma copy_events: "list_all isWrite (snd (snd (copy src dest fs)))"
  unfolding copy_def
  by (auto split: option.splits node.splits intro!: bindIO_events ensureDir_events)

lemma readFile_events: "list_all isWrite (snd (snd (readFile p fs)))"
  by (simp add: readFile_def split: option.splits node.splits)

lemma writeFile_events: "list_all isWrite (snd (snd (writeFile p c fs)))"
  by (simp add: writeFile_def split: option.splits node.splits)

lemma copyProjectFiles_events:
  "list_all isWrite (snd (snd (copyProjectFiles td pp name s fs)))"
  unfolding copyProjectFiles_def
  by (intro bindIO_events ensureDir_events copy_events readFile_events writeFile_events)

lemma execa_events: "snd (snd (execa e cmd args wd fs)) = [Exec cmd args wd]"
  by (simp add: execa_def split: prod.splits)

lemma installDependencies_events:
  "snd (snd (installDependencies e pp fs)) = [Exec ''npm'' [''install''] pp]"
  by (simp add: installDependencies_def bindIO_def execa_def split: prod.splits)

lemma initializeGitRepository_events:
  "list_all isGit (snd (snd (initializeGitRepository e pp fs)))"
  unfolding initializeGitRepository_def
  by (intro bindIO_events) (simp_all add: execa_events)

lemma write_not_git: "isWrite x \<Longrightarrow> \<not> isGit x"
  by (cases x) simp_all

lemma copyProjectFiles_not_git:
  "list_all (\<lambda>x. \<not> isGit x) (snd (snd (copyProjectFiles td pp name s fs)))"
  using copyProjectFiles_events[of td pp name s fs] write_not_git
  by (auto simp: list_all_iff)

section \<open>File-system calls on a tree\<close>

lemma path_join_literals:
  "path_join p [''src''] = p @ [''src'']"
  "path_join p [''src'', ''index.ts''] = p @ [''src'', ''index.ts'']"
  "path_join p [''.gitignore''] = p @ [''.gitignore'']"
  "path_join p [''package.json''] = p @ [''package.json'']"
  "path_join p [''tsconfig.json''] = p @ [''tsconfig.json'']"
  "path_join p [''package-lock.json''] = p @ [''package-lock.json'']"
  "path_join p [''base'', ''src'', ''index.ts''] = p @ [''base'', ''src'', ''index.ts'']"
  "path_join p [''base'', ''gitignore''] = p @ [''base'', ''gitignore'']"
  "path_join p [''base'', ''package.template.json''] = p @ [''base'', ''package.template.json'']"
  "path_join p [''templates''] = p @ [''templates'']"
  "path_join p [''..'', ''src'', ''templates''] = butlast p @ [''src'', ''templates'']"
  by (simp_all add: path_join_def pathStep_def)

lemma tsconfigSourcePath_simps:
  "tsconfigSourcePath td Relaxed = td @ [''tsconfig'', ''relaxed.json'']"
  "tsconfigSourcePath td Moderate = td @ [''tsconfig'', ''moderate.json'']"
  "tsconfigSourcePath td Strict = td @ [''tsconfig'', ''strict.json'']"
  by (simp_all add: tsconfigSourcePath_def path_join_def pathStep_def)

lemma set_tl_prefixes: "q \<in> set (tl (prefixes p)) \<longleftrightarrow> prefix q p \<and> q \<noteq> []"
  by (cases p) (auto simp: prefix_Cons)

lemma mkdirs_existing: "(\<forall>q\<in>set qs. fs q = Some Dir) \<Longrightarrow> mkdirs qs fs = (Ok (), fs, [])"
  by (induction qs) simp_all

lemma pathLength_append: "pathLength (p @ q) = pathLength p + pathLength q"
  by (simp add: pathLength_def)

lemma pathError_None_iff:
  "pathError p = None \<longleftrightarrow>
     (\<forall>c\<in>set p. CHR 0x00 \<notin> set c \<and> length c \<le> 255) \<and> pathLength p \<le> 4095"
proof -
  have a: "(\<exists>c\<in>set p. 255 < length c) = (\<not> (\<forall>c\<in>set p. length c \<le> 255))"
    by (auto simp: not_le)
  have b: "(4095 < pathLength p) = (\<not> pathLength p \<le> 4095)"
    by auto
  show ?thesis
    unfolding pathError_def list_ex_iff a b by auto
qed

lemma pathError_prefix: "pathError p = None \<Longrightarrow> prefix q p \<Longrightarrow> pathError q = None"
  by (auto simp: pathError_None_iff prefix_def pathLength_append)

lemma pathError_extend:
  assumes "pathError p = None"
    and "\<forall>c\<in>set q. CHR 0x00 \<notin> set c \<and> length c \<le> 255"
    and "pathLength p + pathLength q \<le> 4095"
  shows "pathError (p @ q) = None"
  using assms by (auto simp: pathError_None_iff pathLength_append)

lemma ensureDir_existing:
  assumes "pathError p = None"
    and "\<And>q. prefix q p \<Longrightarrow> q \<noteq> [] \<Longrightarrow> fs q = Some Dir"
  shows "ensureDir p fs = (Ok (), fs, [])"
proof -
  have "mkdirs (tl (prefixes p)) fs = (Ok (), fs, [])"
    using assms(2) by (intro mkdirs_existing) (simp add: set_tl_prefixes)
  with assms(1) show ?thesis by (simp add: ensureDir_def)
qed

lemma mkdirs_append_existing:
  "(\<forall>q\<in>set qs. fs q = Some Dir) \<Longrightarrow> mkdirs (qs @ rs) fs = mkdirs rs fs"
  by (induction qs) simp_all

lemma tl_prefixes_snoc: "tl (prefixes (xs @ [x])) = tl (prefixes xs) @ [xs @ [x]]"
  by (cases xs) simp_all

lemma copy_file_fresh:
  assumes "nodeAt fs src = Some (File c)" and "fs dest = None" and "dest \<noteq> []"
    and "\<And>q. prefix q (butlast dest) \<Longrightarrow> q \<noteq> [] \<Longrightarrow> fs q = Some Dir"
    and "pathError src = None" and "pathError dest = None"
  shows "copy src dest fs = (Ok (), fs(dest \<mapsto> File c), [FsWrite dest])"
proof -
  from assms(1-3) have "src \<noteq> dest" by (auto simp: nodeAt_def)
  moreover have "\<not> fileAbove fs dest"
    using assms(4) by (auto simp: fileAbove_def list_ex_iff set_tl_prefixes)
  moreover have "pathError (butlast dest) = None"
    using assms(6) by (rule pathError_prefix) (rule prefixeq_butlast)
  then have "ensureDir (butlast dest) fs = (Ok (), fs, [])"
    using assms(4) by (rule ensureDir_existing)
  ultimately show ?thesis
    using assms(1-3,5,6) by (simp add: copy_def nodeAt_def bindIO_def)
qed

lemma writeFile_fresh:
  assumes "fs p = None" and "p \<noteq> []" and "nodeAt fs (butlast p) = Some Dir"
    and "pathError p = None"
  shows "writeFile p c fs = (Ok (), fs(p \<mapsto> File c), [FsWrite p])"
  using assms by (simp add: writeFile_def nodeAt_def)

lemma readFile_file:
  "nodeAt fs p = Some (File c) \<Longrightarrow> pathError p = None \<Longrightarrow>
     readFile p fs = (Ok (decodeUtf8 c), fs, [])"
  by (simp add: readFile_def)

lemma templateStore_lookup:
  assumes "templateStore td i g t cfg \<subseteq>\<^sub>m fs"
  shows "fs (td @ [''base'', ''src'', ''index.ts'']) = Some (File i)"
    and "fs (td @ [''base'', ''gitignore'']) = Some (File g)"
    and "fs (td @ [''base'', ''package.template.json'']) = Some (File t)"
    and "fs (tsconfigSourcePath td s) = Some (File (cfg s))"
proof -
  have d: "\<And>k v. templateStore td i g t cfg k = Some v \<Longrightarrow> fs k = Some v"
    using assms by (auto simp: map_le_def dom_def)
  show "fs (td @ [''base'', ''src'', ''index.ts'']) = Some (File i)"
    by (rule d) (simp add: templateStore_def)
  show "fs (td @ [''base'', ''gitignore'']) = Some (File g)"
    by (rule d) (simp add: templateStore_def)
  show "fs (td @ [''base'', ''package.template.json'']) = Some (File t)"
    by (rule d) (simp add: templateStore_def)
  show "fs (tsconfigSourcePath td s) = Some (File (cfg s))"
    by (rule d) (cases s; simp add: templateStore_def tsconfigSourcePath_simps)
qed

lemma below_absent:
  assumes "treeShaped fs" and "\<not> existsSync fs pp"
  shows "fs (pp @ r) = None"
proof (rule ccontr)
  assume ex: "fs (pp @ r) \<noteq> None"
  with assms(1) have acc: "pathError (pp @ r) = None"
    and anc: "\<And>q. strict_prefix q (pp @ r) \<Longrightarrow> nodeAt fs q = Some Dir"
    unfolding treeShaped_def by blast+
  from acc have "pathError pp = None" by (rule pathError_prefix) simp
  with assms(2) have none: "nodeAt fs pp = None" by (simp add: existsSync_def)
  show False
  proof (cases r)
    case Nil
    with ex none show False by (simp add: nodeAt_def split: if_splits)
  next
    case (Cons a as)
    then have "strict_prefix pp (pp @ r)" by (simp add: strict_prefix_def)
    from anc[OF this] none show False by simp
  qed
qed

lemma ancestors_dirs:
  assumes "treeShaped fs" and "nodeAt fs d = Some Dir" and "prefix q d" and "q \<noteq> []"
  shows "fs q = Some Dir"
proof (cases "q = d")
  case True
  with assms(2,4) show ?thesis by (simp add: nodeAt_def)
next
  case False
  with assms(3) have sp: "strict_prefix q d" by (simp add: strict_prefix_def)
  with assms(4) have "d \<noteq> []" by auto
  with assms(2) have "fs d \<noteq> None" by (simp add: nodeAt_def)
  with assms(1) sp have "nodeAt fs q = Some Dir" unfolding treeShaped_def by blast
  with assms(4) show ?thesis by (simp add: nodeAt_def)
qed

lemma existing_accepted: "treeShaped fs \<Longrightarrow> fs p = Some n \<Longrightarrow> pathError p = None"
  unfolding treeShaped_def by auto

lemma materialize_steps:
  assumes tree: "treeShaped fs"
    and parent: "nodeAt fs wd = Some Dir"
    and absent: "\<not> existsSync fs (wd @ [leaf])"
    and store: "templateStore td i g t cfg \<subseteq>\<^sub>m fs"
    and acc: "pathError (wd @ [leaf]) = None"
    and len: "pathLength (wd @ [leaf]) + 13 \<le> 4095"
  shows "copyProjectFiles td (wd @ [leaf]) name s fs =
           (if pathLength (wd @ [leaf]) + 14 \<le> 4095
            then (Ok (),
                  fs(wd @ [leaf] \<mapsto> Dir,
                     wd @ [leaf] @ [''src''] \<mapsto> Dir,
                     wd @ [leaf] @ [''src'', ''index.ts''] \<mapsto> File i,
                     wd @ [leaf] @ [''.gitignore''] \<mapsto> File g,
                     wd @ [leaf] @ [''package.json'']
                       \<mapsto> File (replacePlaceholder (decodeUtf8 t) name),
                     wd @ [leaf] @ [''tsconfig.json''] \<mapsto> File (cfg s)),
                  [FsWrite (wd @ [leaf]),
                   FsWrite (wd @ [leaf] @ [''src'']),
                   FsWrite (wd @ [leaf] @ [''src'', ''index.ts'']),
                   FsWrite (wd @ [leaf] @ [''.gitignore'']),
                   FsWrite (wd @ [leaf] @ [''package.json'']),
                   FsWrite (wd @ [leaf] @ [''tsconfig.json''])])
            else (Throw (FsError ''ENAMETOOLONG''),
                  fs(wd @ [leaf] \<mapsto> Dir,
                     wd @ [leaf] @ [''src''] \<mapsto> Dir,
                     wd @ [leaf] @ [''src'', ''index.ts''] \<mapsto> File i,
                     wd @ [leaf] @ [''.gitignore''] \<mapsto> File g,
                     wd @ [leaf] @ [''package.json'']
                       \<mapsto> File (replacePlaceholder (decodeUtf8 t) name)),
                  [FsWrite (wd @ [leaf]),
                   FsWrite (wd @ [leaf] @ [''src'']),
                   FsWrite (wd @ [leaf] @ [''src'', ''index.ts'']),
                   FsWrite (wd @ [leaf] @ [''.gitignore'']),
                   FsWrite (wd @ [leaf] @ [''package.json''])]))"
proof -
  define pp where "pp = wd @ [leaf]"
  have ppne: "pp \<noteq> []" by (simp add: pp_def)
  have bl: "butlast pp = wd" by (simp add: pp_def)
  have B: "\<And>r. fs (pp @ r) = None"
    using below_absent[OF tree absent] by (simp add: pp_def)
  have B0: "fs pp = None" using B[of "[]"] by simp
  have pe0: "pathError pp = None" using acc by (simp add: pp_def)
  have pe: "pathError (pp @ [''src'']) = None" "pathError (pp @ [''src'', ''index.ts'']) = None"
      "pathError (pp @ [''.gitignore'']) = None" "pathError (pp @ [''package.json'']) = None"
  proof -
    from len have len': "pathLength pp + 13 \<le> 4095" by (simp add: pp_def)
    have ext: "\<And>q. \<forall>c\<in>set q. CHR 0x00 \<notin> set c \<and> length c \<le> 255 \<Longrightarrow> pathLength q \<le> 13
                  \<Longrightarrow> pathError (pp @ q) = None"
      by (rule pathError_extend[OF pe0]) (use len' in auto)
    show "pathError (pp @ [''src'']) = None" "pathError (pp @ [''src'', ''index.ts'']) = None"
      "pathError (pp @ [''.gitignore'']) = None" "pathError (pp @ [''package.json'']) = None"
      by (rule ext; simp add: pathLength_def)+
  qed
  have pe5: "pathError (pp @ [''tsconfig.json'']) = None" if "pathLength pp + 14 \<le> 4095"
    by (rule pathError_extend[OF pe0]) (use that in \<open>simp_all add: pathLength_def\<close>)
  have pe6: "pathError (pp @ [''tsconfig.json'']) = Some (FsError ''ENAMETOOLONG'')"
    if "\<not> pathLength pp + 14 \<le> 4095"
  proof -
    from pe0 have "\<forall>c\<in>set pp. CHR 0x00 \<notin> set c \<and> length c \<le> 255"
      by (simp add: pathError_None_iff)
    moreover from that have "4095 < pathLength (pp @ [''tsconfig.json''])"
      by (simp add: pathLength_append pathLength_def)
    ultimately show ?thesis by (auto simp: pathError_def list_ex_iff)
  qed
  have A: "\<And>q. prefix q wd \<Longrightarrow> q \<noteq> [] \<Longrightarrow> fs q = Some Dir"
    using ancestors_dirs[OF tree parent] by blast
  have Ane: "\<And>q r. prefix q wd \<Longrightarrow> q \<noteq> pp @ r"
  proof
    fix q r assume "prefix q wd" and "q = pp @ r"
    then have "prefix (wd @ leaf # r) wd" by (simp add: pp_def)
    then show False by (auto simp: prefix_def)
  qed
  note T = templateStore_lookup[OF store]
  have Tne: "\<And>k r. fs k \<noteq> None \<Longrightarrow> k \<noteq> pp @ r" using B by auto
  have k1: "\<And>r. td @ [''base'', ''src'', ''index.ts''] \<noteq> pp @ r" using T(1) Tne by simp
  have k2: "\<And>r. td @ [''base'', ''gitignore''] \<noteq> pp @ r" using T(2) Tne by simp
  have k3: "\<And>r. td @ [''base'', ''package.template.json''] \<noteq> pp @ r" using T(3) Tne by simp
  have k4: "\<And>r. tsconfigSourcePath td s \<noteq> pp @ r" using T(4)[of s] Tne by simp
  have k1': "td @ [''base'', ''src'', ''index.ts''] \<noteq> pp" using k1[of "[]"] by simp
  have k2': "td @ [''base'', ''gitignore''] \<noteq> pp" using k2[of "[]"] by simp
  have k3': "td @ [''base'', ''package.template.json''] \<noteq> pp" using k3[of "[]"] by simp
  have k4': "tsconfigSourcePath td s \<noteq> pp" using k4[of "[]"] by simp
  have tne: "td @ [''base'', ''src'', ''index.ts''] \<noteq> []" "td @ [''base'', ''gitignore''] \<noteq> []"
       "td @ [''base'', ''package.template.json''] \<noteq> []" by simp_all
  have tne4: "tsconfigSourcePath td s \<noteq> []" by (cases s) (simp_all add: tsconfigSourcePath_simps)
  have pt: "pathError (td @ [''base'', ''src'', ''index.ts'']) = None"
      "pathError (td @ [''base'', ''gitignore'']) = None"
      "pathError (td @ [''base'', ''package.template.json'']) = None"
      "pathError (tsconfigSourcePath td s) = None"
    using T(1,2,3) T(4)[of s] existing_accepted[OF tree] by blast+

  define fs1 where "fs1 = fs(pp \<mapsto> Dir, pp @ [''src''] \<mapsto> Dir)"
  define fs2 where "fs2 = fs1(pp @ [''src'', ''index.ts''] \<mapsto> File i)"
  define fs3 where "fs3 = fs2(pp @ [''.gitignore''] \<mapsto> File g)"
  define fs4 where "fs4 = fs3(pp @ [''package.json''] \<mapsto> File (replacePlaceholder (decodeUtf8 t) name))"
  define fs5 where "fs5 = fs4(pp @ [''tsconfig.json''] \<mapsto> File (cfg s))"

  have s1: "ensureDir (pp @ [''src'']) fs = (Ok (), fs1, [FsWrite pp, FsWrite (pp @ [''src''])])"
  proof -
    have "tl (prefixes pp) = tl (prefixes wd) @ [pp]"
      unfolding pp_def by (rule tl_prefixes_snoc)
    then have "tl (prefixes (pp @ [''src''])) = tl (prefixes wd) @ [pp, pp @ [''src'']]"
      by (simp only: tl_prefixes_snoc append_assoc append.simps)
    moreover have "\<forall>q\<in>set (tl (prefixes wd)). fs q = Some Dir"
      using A by (simp add: set_tl_prefixes)
    ultimately have "ensureDir (pp @ [''src'']) fs = mkdirs [pp, pp @ [''src'']] fs"
      by (simp add: ensureDir_def mkdirs_append_existing pe(1))
    also have "\<dots> = (Ok (), fs1, [FsWrite pp, FsWrite (pp @ [''src''])])"
      using B0 B[of "[''src'']"] by (simp add: fs1_def)
    finally show ?thesis .
  qed
  have dirs1: "\<And>q. prefix q (pp @ [''src'']) \<Longrightarrow> q \<noteq> [] \<Longrightarrow> fs1 q = Some Dir"
  proof -
    fix q assume p: "prefix q (pp @ [''src''])" and ne: "q \<noteq> []"
    from p have "prefix q pp \<or> q = pp @ [''src'']" by auto
    moreover have "prefix q pp \<Longrightarrow> prefix q wd \<or> q = pp" unfolding pp_def by auto
    ultimately have "prefix q wd \<or> q = pp \<or> q = pp @ [''src'']" by blast
    then show "fs1 q = Some Dir"
    proof (elim disjE)
      assume w: "prefix q wd"
      with Ane[of q "[]"] Ane[of q "[''src'']"] have "q \<noteq> pp" "q \<noteq> pp @ [''src'']" by simp_all
      with A[OF w ne] show ?thesis by (simp add: fs1_def)
    qed (simp_all add: fs1_def)
  qed
  have dirs0: "\<And>q. prefix q pp \<Longrightarrow> q \<noteq> [] \<Longrightarrow> fs1 q = Some Dir"
    using dirs1 by (simp add: prefix_def) (metis append.assoc)
  have s2: "copy (td @ [''base'', ''src'', ''index.ts'']) (pp @ [''src'', ''index.ts'']) fs1
              = (Ok (), fs2, [FsWrite (pp @ [''src'', ''index.ts''])])"
    unfolding fs2_def
  proof (rule copy_file_fresh)
    show "nodeAt fs1 (td @ [''base'', ''src'', ''index.ts'']) = Some (File i)"
      using T(1) k1 k1' by (simp add: nodeAt_def fs1_def)
    show "fs1 (pp @ [''src'', ''index.ts'']) = None"
      using B[of "[''src'', ''index.ts'']"] by (simp add: fs1_def)
    show "pp @ [''src'', ''index.ts''] \<noteq> []" by simp
    show "\<And>q. prefix q (butlast (pp @ [''src'', ''index.ts''])) \<Longrightarrow> q \<noteq> [] \<Longrightarrow> fs1 q = Some Dir"
      using dirs1 by (simp add: butlast_append)
  qed (rule pt(1), rule pe(2))
  have dirs2: "\<And>q. prefix q pp \<Longrightarrow> q \<noteq> [] \<Longrightarrow> fs2 q = Some Dir"
    using dirs0 by (auto simp: fs2_def prefix_def)
  have s3: "copy (td @ [''base'', ''gitignore'']) (pp @ [''.gitignore'']) fs2
              = (Ok (), fs3, [FsWrite (pp @ [''.gitignore''])])"
    unfolding fs3_def
  proof (rule copy_file_fresh)
    show "nodeAt fs2 (td @ [''base'', ''gitignore'']) = Some (File g)"
      using T(2) k2 k2' by (simp add: nodeAt_def fs1_def fs2_def)
    show "fs2 (pp @ [''.gitignore'']) = None"
      using B[of "[''.gitignore'']"] by (simp add: fs1_def fs2_def)
    show "pp @ [''.gitignore''] \<noteq> []" by simp
    show "\<And>q. prefix q (butlast (pp @ [''.gitignore''])) \<Longrightarrow> q \<noteq> [] \<Longrightarrow> fs2 q = Some Dir"
      using dirs2 by (simp add: butlast_append)
  qed (rule pt(2), rule pe(3))
  have s4: "readFile (td @ [''base'', ''package.template.json'']) fs3
              = (Ok (decodeUtf8 t), fs3, [])"
    using T(3) k3 k3' pt(3)
    by (intro readFile_file) (simp_all add: nodeAt_def fs1_def fs2_def fs3_def)
  have s5: "writeFile (pp @ [''package.json'']) (replacePlaceholder (decodeUtf8 t) name) fs3
              = (Ok (), fs4, [FsWrite (pp @ [''package.json''])])"
    unfolding fs4_def
  proof (rule writeFile_fresh)
    show "fs3 (pp @ [''package.json'']) = None"
      using B[of "[''package.json'']"] by (simp add: fs1_def fs2_def fs3_def)
    show "pp @ [''package.json''] \<noteq> []" by simp
    show "nodeAt fs3 (butlast (pp @ [''package.json''])) = Some Dir"
      using ppne by (simp add: butlast_append nodeAt_def fs1_def fs2_def fs3_def)
  qed (rule pe(4))
  have dirs4: "\<And>q. prefix q pp \<Longrightarrow> q \<noteq> [] \<Longrightarrow> fs4 q = Some Dir"
    using dirs2 by (auto simp: fs3_def fs4_def prefix_def)
  have src6: "nodeAt fs4 (tsconfigSourcePath td s) = Some (File (cfg s))"
    using T(4)[of s] k4 k4' tne4 by (simp add: nodeAt_def fs1_def fs2_def fs3_def fs4_def)
  have s6: "copy (tsconfigSourcePath td s) (pp @ [''tsconfig.json'']) fs4
              = (Ok (), fs5, [FsWrite (pp @ [''tsconfig.json''])])"
    if fits: "pathLength pp + 14 \<le> 4095"
    unfolding fs5_def
  proof (rule copy_file_fresh)
    show "nodeAt fs4 (tsconfigSourcePath td s) = Some (File (cfg s))" by (rule src6)
    show "fs4 (pp @ [''tsconfig.json'']) = None"
      using B[of "[''tsconfig.json'']"] by (simp add: fs1_def fs2_def fs3_def fs4_def)
    show "pp @ [''tsconfig.json''] \<noteq> []" by simp
    show "\<And>q. prefix q (butlast (pp @ [''tsconfig.json''])) \<Longrightarrow> q \<noteq> [] \<Longrightarrow> fs4 q = Some Dir"
      using dirs4 by (simp add: butlast_append)
  qed (rule pt(4), rule pe5[OF fits])
  have s7: "copy (tsconfigSourcePath td s) (pp @ [''tsconfig.json'']) fs4
              = (Throw (FsError ''ENAMETOOLONG''), fs4, [])"
    if "\<not> pathLength pp + 14 \<le> 4095"
    using src6 pt(4) pe6[OF that] by (simp add: copy_def)
  have "copyProjectFiles td pp name s fs =
          (if pathLength pp + 14 \<le> 4095
           then (Ok (), fs5,
                 [FsWrite pp, FsWrite (pp @ [''src'']), FsWrite (pp @ [''src'', ''index.ts'']),
                  FsWrite (pp @ [''.gitignore'']), FsWrite (pp @ [''package.json'']),
                  FsWrite (pp @ [''tsconfig.json''])])
           else (Throw (FsError ''ENAMETOOLONG''), fs4,
                 [FsWrite pp, FsWrite (pp @ [''src'']), FsWrite (pp @ [''src'', ''index.ts'']),
                  FsWrite (pp @ [''.gitignore'']), FsWrite (pp @ [''package.json''])]))"
    by (simp add: copyProjectFiles_def path_join_literals bindIO_def s1 s2 s3 s4 s5 s6 s7)
  then show ?thesis
    by (simp add: fs5_def fs4_def fs3_def fs2_def fs1_def pp_def)
qed

lemma materialize_result:
  assumes tree: "treeShaped fs"
    and parent: "nodeAt fs wd = Some Dir"
    and absent: "\<not> existsSync fs (wd @ [leaf])"
    and store: "templateStore td i g t cfg \<subseteq>\<^sub>m fs"
    and acc: "pathError (wd @ [leaf]) = None"
    and len: "pathLength (wd @ [leaf]) + 14 \<le> 4095"
  shows "copyProjectFiles td (wd @ [leaf]) name s fs =
           (Ok (),
            fs(wd @ [leaf] \<mapsto> Dir,
               wd @ [leaf] @ [''src''] \<mapsto> Dir,
               wd @ [leaf] @ [''src'', ''index.ts''] \<mapsto> File i,
               wd @ [leaf] @ [''.gitignore''] \<mapsto> File g,
               wd @ [leaf] @ [''package.json''] \<mapsto> File (replacePlaceholder (decodeUtf8 t) name),
               wd @ [leaf] @ [''tsconfig.json''] \<mapsto> File (cfg s)),
            [FsWrite (wd @ [leaf]),
             FsWrite (wd @ [leaf] @ [''src'']),
             FsWrite (wd @ [leaf] @ [''src'', ''index.ts'']),
             FsWrite (wd @ [leaf] @ [''.gitignore'']),
             FsWrite (wd @ [leaf] @ [''package.json'']),
             FsWrite (wd @ [leaf] @ [''tsconfig.json''])])"
proof -
  from len have "pathLength (wd @ [leaf]) + 13 \<le> 4095" by simp
  from materialize_steps[OF tree parent absent store acc this, of name s] len
  show ?thesis by simp
qed

section \<open>What a successful materialization has written\<close>

lemma bindIO_OkE:
  assumes "\<exists>ev. bindIO m f s = (Ok b, s', ev)"
  obtains a s1 where "\<exists>ev. m s = (Ok a, s1, ev)" and "\<exists>ev. f a s1 = (Ok b, s', ev)"
  using assms by (auto simp: bindIO_def split: prod.splits result.splits)

lemma mkdirs_keeps: "mkdirs qs fs = (r, fs', ev) \<Longrightarrow> fs q \<noteq> None \<Longrightarrow> fs' q = fs q"
proof (induction qs arbitrary: fs r fs' ev)
  case Nil
  then show ?case by simp
next
  case (Cons q0 qs)
  show ?case
  proof (cases "fs q0")
    case None
    obtain r1 fs1 ev1 where m: "mkdirs qs (fs(q0 \<mapsto> Dir)) = (r1, fs1, ev1)"
      by (cases "mkdirs qs (fs(q0 \<mapsto> Dir))")
    from None Cons.prems(2) have ne: "q \<noteq> q0" by auto
    with Cons.prems(2) have "(fs(q0 \<mapsto> Dir)) q \<noteq> None" by simp
    from Cons.IH[OF m this] ne have "fs1 q = fs q" by simp
    moreover from Cons.prems(1) None m have "fs' = fs1" by simp
    ultimately show ?thesis by simp
  next
    case (Some n)
    show ?thesis
    proof (cases n)
      case (File c)
      with Some Cons.prems(1) show ?thesis by simp
    next
      case Dir
      with Some Cons.prems(1) have "mkdirs qs fs = (r, fs', ev)" by simp
      from Cons.IH[OF this Cons.prems(2)] show ?thesis .
    qed
  qed
qed

lemma ensureDir_keeps: "ensureDir p fs = (r, fs', ev) \<Longrightarrow> fs q \<noteq> None \<Longrightarrow> fs' q = fs q"
  by (cases "pathError p") (auto simp: ensureDir_def dest: mkdirs_keeps)

lemma copy_file_written:
  assumes "nodeAt fs src = Some (File c)" and "copy src dest fs = (Ok u, fs', ev)"
  shows "fs' dest = Some (File c)"
    and "\<And>q. q \<noteq> dest \<Longrightarrow> fs q \<noteq> None \<Longrightarrow> fs' q = fs q"
proof -
  from assms obtain fs1 ev1 where e: "ensureDir (butlast dest) fs = (Ok (), fs1, ev1)"
    and w: "fs' = fs1(dest \<mapsto> File c)"
    by (auto simp: copy_def bindIO_def
             split: option.splits if_splits node.splits prod.splits result.splits)
  from w show "fs' dest = Some (File c)" by simp
  fix q assume "q \<noteq> dest" and "fs q \<noteq> None"
  with ensureDir_keeps[OF e] w show "fs' q = fs q" by simp
qed

lemma writeFile_written: "writeFile p c fs = (Ok u, fs', ev) \<Longrightarrow> fs' = fs(p \<mapsto> File c)"
  by (auto simp: writeFile_def split: option.splits if_splits node.splits)

lemma readFile_unchanged: "readFile p fs = (r, fs', ev) \<Longrightarrow> fs' = fs"
  by (auto simp: readFile_def split: option.splits node.splits)

lemma materialize_tsconfig:
  assumes store: "templateStore td i g t cfg \<subseteq>\<^sub>m fs"
    and ok: "copyProjectFiles td pp name s fs = (Ok (), fs', ev)"
  shows "fs' (pp @ [''tsconfig.json'']) = Some (File (cfg s))"
proof -
  note T = templateStore_lookup[OF store]
  define K where "K = tsconfigSourcePath td s"
  define G where "G = td @ [''base'', ''gitignore'']"
  define I where "I = td @ [''base'', ''src'', ''index.ts'']"
  have Klast: "last K \<in> {''relaxed.json'', ''moderate.json'', ''strict.json''}"
    by (cases s) (simp_all add: K_def tsconfigSourcePath_simps)
  have Kne: "K \<noteq> []" by (cases s) (simp_all add: K_def tsconfigSourcePath_simps)
  have Kd: "K \<noteq> pp @ [''src'', ''index.ts'']" "K \<noteq> pp @ [''.gitignore'']"
    "K \<noteq> pp @ [''package.json'']"
    using Klast by auto
  have Gd: "G \<noteq> pp @ [''src'', ''index.ts'']" "G \<noteq> []"
    by (auto simp: G_def dest: arg_cong[where f = last])
  have Ine: "I \<noteq> []" by (simp add: I_def)
  define after4 where
    "after4 = (\<lambda>body. bindIO (writeFile (pp @ [''package.json'']) (replacePlaceholder body name))
                        (\<lambda>_. copy K (pp @ [''tsconfig.json''])))"
  define after2 where
    "after2 = bindIO (copy G (pp @ [''.gitignore'']))
                (\<lambda>_. bindIO (readFile (td @ [''base'', ''package.template.json''])) after4)"
  define after1 where
    "after1 = bindIO (copy I (pp @ [''src'', ''index.ts''])) (\<lambda>_. after2)"
  have cp: "copyProjectFiles td pp name s = bindIO (ensureDir (pp @ [''src''])) (\<lambda>_. after1)"
    by (simp add: copyProjectFiles_def path_join_literals after1_def after2_def after4_def
          K_def G_def I_def)
  from ok have "\<exists>ev. bindIO (ensureDir (pp @ [''src''])) (\<lambda>_. after1) fs = (Ok (), fs', ev)"
    unfolding cp by blast
  then obtain u1 fs1 where s1: "\<exists>ev. ensureDir (pp @ [''src'']) fs = (Ok u1, fs1, ev)"
    and r1: "\<exists>ev. after1 fs1 = (Ok (), fs', ev)"
    by (rule bindIO_OkE)
  from r1 obtain u2 fs2 where s2: "\<exists>ev. copy I (pp @ [''src'', ''index.ts'']) fs1 = (Ok u2, fs2, ev)"
    and r2: "\<exists>ev. after2 fs2 = (Ok (), fs', ev)"
    unfolding after1_def by (rule bindIO_OkE)
  from r2 obtain u3 fs3 where s3: "\<exists>ev. copy G (pp @ [''.gitignore'']) fs2 = (Ok u3, fs3, ev)"
    and r3: "\<exists>ev. bindIO (readFile (td @ [''base'', ''package.template.json''])) after4 fs3
                  = (Ok (), fs', ev)"
    unfolding after2_def by (rule bindIO_OkE)
  from r3 obtain body fs3' where
    s4: "\<exists>ev. readFile (td @ [''base'', ''package.template.json'']) fs3 = (Ok body, fs3', ev)"
    and r4: "\<exists>ev. after4 body fs3' = (Ok (), fs', ev)"
    by (rule bindIO_OkE)
  from r4 obtain u5 fs4 where
    s5: "\<exists>ev. writeFile (pp @ [''package.json'']) (replacePlaceholder body name) fs3'
               = (Ok u5, fs4, ev)"
    and s6: "\<exists>ev. copy K (pp @ [''tsconfig.json'']) fs4 = (Ok (), fs', ev)"
    unfolding after4_def by (rule bindIO_OkE)
  have k0: "fs K = Some (File (cfg s))" using T(4)[of s] by (simp add: K_def)
  have g0: "fs G = Some (File g)" using T(2) by (simp add: G_def)
  have i0: "fs I = Some (File i)" using T(1) by (simp add: I_def)
  from s1 ensureDir_keeps have keep1: "\<And>q. fs q \<noteq> None \<Longrightarrow> fs1 q = fs q" by blast
  have k1: "fs1 K = Some (File (cfg s))" using keep1[of K] k0 by simp
  have g1: "fs1 G = Some (File g)" using keep1[of G] g0 by simp
  have i1: "nodeAt fs1 I = Some (File i)" using keep1[of I] i0 Ine by (simp add: nodeAt_def)
  from s2 copy_file_written(2)[OF i1]
  have keep2: "\<And>q. q \<noteq> pp @ [''src'', ''index.ts''] \<Longrightarrow> fs1 q \<noteq> None \<Longrightarrow> fs2 q = fs1 q"
    by blast
  have k2: "fs2 K = Some (File (cfg s))" using keep2[of K] Kd(1) k1 by simp
  have g2: "nodeAt fs2 G = Some (File g)" using keep2[of G] Gd g1 by (simp add: nodeAt_def)
  from s3 copy_file_written(2)[OF g2]
  have keep3: "\<And>q. q \<noteq> pp @ [''.gitignore''] \<Longrightarrow> fs2 q \<noteq> None \<Longrightarrow> fs3 q = fs2 q"
    by blast
  have k3: "fs3 K = Some (File (cfg s))" using keep3[of K] Kd(2) k2 by simp
  from s4 readFile_unchanged have "fs3' = fs3" by blast
  moreover from s5 writeFile_written
  have "fs4 = fs3'(pp @ [''package.json''] \<mapsto> File (replacePlaceholder body name))"
    by blast
  ultimately have "nodeAt fs4 K = Some (File (cfg s))"
    using k3 Kd(3) Kne by (simp add: nodeAt_def)
  with s6 copy_file_written(1) show ?thesis by blast
qed

section \<open>The manifest\<close>

lemma replace_head_brace:
  assumes "name \<noteq> []" and "CHR ''{'' \<notin> set name" and "CHR ''$'' \<notin> set name"
    and "replaceFrom name b s = CHR ''{'' # out"
  shows "\<exists>s'. s = CHR ''{'' # s' \<and> \<not> prefix placeholder s"
proof (cases s)
  case Nil
  with assms(4) show ?thesis by simp
next
  case (Cons c s')
  show ?thesis
  proof (cases "prefix placeholder (c # s')")
    case True
    with assms(3,4) Cons
    have "name @ replaceFrom name (b @ placeholder) (drop (length placeholder) (c # s'))
            = CHR ''{'' # out"
      by (simp add: getSubstitution_verbatim)
    with assms(1,2) show ?thesis by (cases name) auto
  next
    case False
    with assms(4) Cons show ?thesis by simp
  qed
qed

lemma sublist2_append:
  assumes "sublist [x, y] (xs @ ys)" and "x \<notin> set xs"
  shows "sublist [x, y] ys"
proof -
  from assms(1) consider "sublist [x, y] xs" | "sublist [x, y] ys"
    | xs1 xs2 where "[x, y] = xs1 @ xs2" "suffix xs1 xs" "prefix xs2 ys"
    by (auto simp: sublist_append)
  then show ?thesis
  proof cases
    case 1
    then have "set [x, y] \<subseteq> set xs" by (rule set_mono_sublist)
    with assms(2) show ?thesis by simp
  next
    case 2
    then show ?thesis .
  next
    case 3
    show ?thesis
    proof (cases xs1)
      case Nil
      with 3 show ?thesis by (auto intro: prefix_imp_sublist)
    next
      case (Cons a as)
      with 3(1) have "a = x" by simp
      with Cons 3(2) have "x \<in> set xs" by (auto simp: suffix_def)
      with assms(2) show ?thesis by simp
    qed
  qed
qed

lemma replace_no_open:
  assumes "name \<noteq> []" and "CHR ''{'' \<notin> set name" and "CHR ''$'' \<notin> set name"
    and "\<forall>u. suffix u s \<longrightarrow> prefix ''{{'' u \<longrightarrow> prefix placeholder u"
  shows "\<not> sublist ''{{'' (replaceFrom name b s)"
  using assms
proof (induction name b s rule: replaceFrom.induct)
  case (1 repl preceding)
  show ?case by simp
next
  case (2 repl preceding c s)
  note n = "2.prems"(1-3)
  show ?case
  proof (cases "prefix placeholder (c # s)")
    case True
    have "\<forall>u. suffix u (drop (length placeholder) (c # s)) \<longrightarrow> prefix ''{{'' u
            \<longrightarrow> prefix placeholder u"
      using "2.prems"(4) suffix_drop suffix_order.trans by blast
    from "2.IH"(1)[OF True n this]
    have ih: "\<not> sublist ''{{''
                (replaceFrom repl (preceding @ placeholder) (drop (length placeholder) (c # s)))" .
    have "replaceFrom repl preceding (c # s)
            = repl @ replaceFrom repl (preceding @ placeholder) (drop (length placeholder) (c # s))"
      using True n(3) by (simp add: getSubstitution_verbatim)
    with ih n(2) show ?thesis using sublist2_append by fastforce
  next
    case False
    have "\<forall>u. suffix u s \<longrightarrow> prefix ''{{'' u \<longrightarrow> prefix placeholder u"
      using "2.prems"(4) by (simp add: suffix_ConsI)
    from "2.IH"(2)[OF False n this]
    have ih: "\<not> sublist ''{{'' (replaceFrom repl (preceding @ [c]) s)" .
    have eq: "replaceFrom repl preceding (c # s) = c # replaceFrom repl (preceding @ [c]) s"
      using False by simp
    show ?thesis
    proof
      assume "sublist ''{{'' (replaceFrom repl preceding (c # s))"
      then have "sublist ''{{'' (c # replaceFrom repl (preceding @ [c]) s)"
        unfolding eq .
      then have "prefix ''{{'' (c # replaceFrom repl (preceding @ [c]) s)
                 \<or> sublist ''{{'' (replaceFrom repl (preceding @ [c]) s)"
        by (simp only: sublist_Cons_right)
      with ih have "prefix ''{{'' (c # replaceFrom repl (preceding @ [c]) s)"
        by blast
      then have c: "c = CHR ''{''"
        and po: "prefix ''{'' (replaceFrom repl (preceding @ [c]) s)"
        by auto
      from po obtain out where o: "replaceFrom repl (preceding @ [c]) s = CHR ''{'' # out"
        by (cases "replaceFrom repl (preceding @ [c]) s") auto
      from replace_head_brace[OF n o] obtain s' where "s = CHR ''{'' # s'" by blast
      with c have "prefix ''{{'' (c # s)" by simp
      with "2.prems"(4) have "prefix placeholder (c # s)" by blast
      with False show False by simp
    qed
  qed
qed

lemma replace_contains_name:
  assumes "CHR ''$'' \<notin> set name" and "sublist placeholder s"
  shows "sublist name (replaceFrom name b s)"
  using assms
proof (induction name b s rule: replaceFrom.induct)
  case (1 repl preceding)
  then show ?case by (simp add: placeholder_def)
next
  case (2 repl preceding c s)
  show ?case
  proof (cases "prefix placeholder (c # s)")
    case True
    with "2.prems"(1) show ?thesis by (simp add: getSubstitution_verbatim)
  next
    case False
    with "2.prems"(2) have "sublist placeholder s" by (simp add: sublist_Cons_right)
    from "2.IH"(2)[OF False "2.prems"(1) this] False show ?thesis
      by (simp add: sublist_Cons_right)
  qed
qed

lemma manifest_ok:
  assumes "matchesSpecPattern name" and "manifestTemplateOk t"
  shows "\<not> sublist placeholder (replacePlaceholder t name)"
    and "sublist name (replacePlaceholder t name)"
proof -
  from assms(1) have ne: "name \<noteq> []" by (simp add: matchesSpecPattern_def)
  from spec_chars_plain[OF assms(1)]
  have nb: "CHR ''{'' \<notin> set name" and nd: "CHR ''$'' \<notin> set name" by simp_all
  from assms(2) have br: "\<forall>u. suffix u t \<longrightarrow> prefix ''{{'' u \<longrightarrow> prefix placeholder u"
    by (simp add: manifestTemplateOk_def list_all_iff)
  have "\<not> sublist ''{{'' (replacePlaceholder t name)"
    unfolding replacePlaceholder_def by (rule replace_no_open[OF ne nb nd br])
  moreover have "sublist ''{{'' placeholder"
    by (simp add: placeholder_def)
  ultimately show "\<not> sublist placeholder (replacePlaceholder t name)"
    using sublist_order.order.trans by blast
  from assms(2) show "sublist name (replacePlaceholder t name)"
    unfolding replacePlaceholder_def
    by (intro replace_contains_name[OF nd]) (simp add: manifestTemplateOk_def)
qed

lemma treeShaped_map_of:
  assumes "\<forall>(p, n)\<in>set kvs.
             pathError p = None
             \<and> (\<forall>q\<in>set (prefixes (butlast p)). p \<noteq> [] \<longrightarrow> nodeAt (map_of kvs) q = Some Dir)"
  shows "treeShaped (map_of kvs)"
  unfolding treeShaped_def
proof (intro allI impI conjI)
  fix p assume ex: "map_of kvs p \<noteq> None"
  then obtain n where "(p, n) \<in> set kvs" by (auto dest: map_of_SomeD)
  with assms show "pathError p = None" by fastforce
next
  fix p q assume ex: "map_of kvs p \<noteq> None" and sp: "strict_prefix q p"
  from ex obtain n where "(p, n) \<in> set kvs" by (auto dest: map_of_SomeD)
  moreover from sp have "p \<noteq> []" by auto
  moreover from sp have "prefix q (butlast p)"
    by (metis append_butlast_last_id calculation(2) prefix_snoc strict_prefix_def)
  ultimately show "nodeAt (map_of kvs) q = Some Dir" using assms by fastforce
qed

lemma demoFs_tree: "treeShaped demoFs"
  unfolding demoFs_def
  by (rule treeShaped_map_of) (simp add: demoEntries_def nodeAt_def pathError_def pathLength_def)

lemma demoFs_store:
  "templateStore [''pkg'', ''templates''] ''app.listen(PORT)'' ''node_modules'' demoTemplate demoTsconfig
     \<subseteq>\<^sub>m demoFs"
  by (simp add: map_le_def templateStore_def demoFs_def demoEntries_def)

lemma demoTemplate_decoded: "decodeUtf8 demoTemplate = demoTemplate"
  by (simp add: decodeUtf8_def startByte_def demoTemplate_def)

lemma demoTemplate_ok: "manifestTemplateOk (decodeUtf8 demoTemplate)"
  unfolding demoTemplate_decoded
  by (simp add: manifestTemplateOk_def demoTemplate_def placeholder_def sublist_code)

lemma demo_manifest:
  "replacePlaceholder (decodeUtf8 demoTemplate) ''demo-app'' = ''{name: demo-app, bin: demo-app}''"
  unfolding demoTemplate_decoded
  by (simp add: replacePlaceholder_def demoTemplate_def placeholder_def)

section \<open>How the stages settle\<close>

lemma bindIO_settles:
  assumes "\<And>fs. settles (fst (m fs))" and "\<And>a fs. settles (fst (f a fs))"
  shows "settles (fst (bindIO m f fs))"
proof (cases "m fs")
  case (fields r fs1 ev1)
  with assms(1)[of fs] have s: "settles r" by simp
  show ?thesis
  proof (cases r)
    case (Ok a)
    obtain r2 fs2 ev2 where f: "f a fs1 = (r2, fs2, ev2)" by (cases "f a fs1")
    with assms(2)[of a fs1] have "settles r2" by simp
    with fields Ok f show ?thesis by (simp add: bindIO_def)
  qed (use s fields in \<open>simp_all add: bindIO_def\<close>)
qed

lemma mkdirs_settles: "settles (fst (mkdirs qs fs))"
proof (induction qs arbitrary: fs)
  case Nil
  show ?case by simp
next
  case (Cons q qs)
  show ?case
  proof (cases "fs q")
    case None
    obtain r fs1 ev where m: "mkdirs qs (fs(q \<mapsto> Dir)) = (r, fs1, ev)"
      by (cases "mkdirs qs (fs(q \<mapsto> Dir))")
    from Cons.IH[of "fs(q \<mapsto> Dir)"] have "settles r" unfolding m by simp
    with None m show ?thesis by simp
  next
    case (Some n)
    with Cons.IH[of fs] show ?thesis by (cases n) simp_all
  qed
qed

lemma ensureDir_settles: "settles (fst (ensureDir p fs))"
  by (simp add: ensureDir_def mkdirs_settles split: option.splits)

lemma copy_settles: "settles (fst (copy src dest fs))"
  unfolding copy_def
  by (auto split: option.splits node.splits intro!: bindIO_settles ensureDir_settles)

lemma readFile_settles: "settles (fst (readFile p fs))"
  by (simp add: readFile_def split: option.splits node.splits)

lemma writeFile_settles: "settles (fst (writeFile p c fs))"
  by (simp add: writeFile_def split: option.splits node.splits)

lemma copyProjectFiles_settles: "settles (fst (copyProjectFiles td pp name s fs))"
  unfolding copyProjectFiles_def
  by (intro bindIO_settles ensureDir_settles copy_settles readFile_settles writeFile_settles)

lemma execa_settles: "settles (fst (execa e cmd args wd fs))"
  by (simp add: execa_def split: prod.splits)

lemma installDependencies_settles: "settles (fst (installDependencies e pp fs))"
  unfolding installDependencies_def
  by (intro bindIO_settles execa_settles) simp

lemma initializeGitRepository_settles: "settles (fst (initializeGitRepository e pp fs))"
  unfolding initializeGitRepository_def
  by (intro bindIO_settles execa_settles)

lemma settlesE:
  assumes "settles r"
  obtains a where "r = Ok a" | err where "r = Throw err"
  using assms by (cases r) simp_all

section \<open>The paths through \<^verbatim>\<open>createProject\<close>\<close>

lemmas ev_defs = evCreating_def evCreated_def evInstalling_def evInstalled_def evGitStart_def
  evGitDone_def

lemmas io_defs = bindIO_def tryCatch_def emit_def throwIO_def returnIO_def exitIO_def

lemma createProject_materialize_throws:
  assumes "\<not> existsSync fs (projectPathOf e c)"
    and "materialize e c fs = (Throw err, fs1, ev1)"
  shows "createProject e c fs =
           (Throw err, fs1, evCreating # ev1 @ [SpinnerStop ''Error creating structure''])"
  using assms
  by (simp add: createProject_def projectPathOf_def materialize_def Let_def io_defs ev_defs)

lemma createProject_install_throws:
  assumes "\<not> existsSync fs (projectPathOf e c)"
    and "materialize e c fs = (Ok u, fs1, ev1)"
    and "installDependencies e (projectPathOf e c) fs1 = (Throw err, fs2, ev2)"
  shows "createProject e c fs =
           (Throw err, fs2,
            evCreating # ev1 @ [evCreated, evInstalling] @ ev2
              @ [SpinnerStop ''Error installing dependencies''])"
  using assms
  by (simp add: createProject_def projectPathOf_def materialize_def Let_def io_defs ev_defs)

lemma createProject_without_git:
  assumes "\<not> existsSync fs (projectPathOf e c)"
    and "materialize e c fs = (Ok u, fs1, ev1)"
    and "installDependencies e (projectPathOf e c) fs1 = (Ok u', fs2, ev2)"
    and "\<not> initGit c"
  shows "createProject e c fs =
           (Ok (), fs2, evCreating # ev1 @ [evCreated, evInstalling] @ ev2 @ [evInstalled])"
  using assms
  by (simp add: createProject_def projectPathOf_def materialize_def Let_def io_defs ev_defs)

lemma createProject_git_done:
  assumes "\<not> existsSync fs (projectPathOf e c)"
    and "materialize e c fs = (Ok u, fs1, ev1)"
    and "installDependencies e (projectPathOf e c) fs1 = (Ok u', fs2, ev2)"
    and "initGit c"
    and "initializeGitRepository e (projectPathOf e c) fs2 = (Ok u'', fs3, ev3)"
  shows "createProject e c fs =
           (Ok (), fs3,
            evCreating # ev1 @ [evCreated, evInstalling] @ ev2 @ [evInstalled, evGitStart]
              @ ev3 @ [evGitDone])"
  using assms
  by (simp add: createProject_def projectPathOf_def materialize_def Let_def io_defs ev_defs)

lemma createProject_git_throws:
  assumes "\<not> existsSync fs (projectPathOf e c)"
    and "materialize e c fs = (Ok u, fs1, ev1)"
    and "installDependencies e (projectPathOf e c) fs1 = (Ok u', fs2, ev2)"
    and "initGit c"
    and "initializeGitRepository e (projectPathOf e c) fs2 = (Throw err, fs3, ev3)"
  shows "createProject e c fs =
           (Ok (), fs3,
            evCreating # ev1 @ [evCreated, evInstalling] @ ev2 @ [evInstalled, evGitStart]
              @ ev3 @ [SpinnerStop ''Error initializing Git (may not be installed)''])"
  using assms
  by (simp add: createProject_def projectPathOf_def materialize_def Let_def io_defs ev_defs)

lemma install_fails:
  assumes "subprocess e ''npm'' [''install''] pp fs1 = (ok, fs2)"
    and "\<not> ok \<or> \<not> existsSync fs2 (pp @ [''package-lock.json''])"
  shows "installDependencies e pp fs1 =
           (Throw (if ok then Error ''package-lock.json was not generated'' else ExecError ''npm''),
            fs2, [Exec ''npm'' [''install''] pp])"
  using assms
  by (auto simp: installDependencies_def execa_def bindIO_def path_join_literals)

lemma install_succeeds:
  assumes "subprocess e ''npm'' [''install''] pp fs1 = (True, fs2)"
    and "existsSync fs2 (pp @ [''package-lock.json''])"
  shows "installDependencies e pp fs1 = (Ok (), fs2, [Exec ''npm'' [''install''] pp])"
  using assms
  by (auto simp: installDependencies_def execa_def bindIO_def path_join_literals)

lemma materialize_events: "list_all isWrite (snd (snd (materialize e c fs)))"
  by (simp add: materialize_def copyProjectFiles_events)

lemma materialize_settles: "settles (fst (materialize e c fs))"
  by (simp add: materialize_def copyProjectFiles_settles)

lemma createProject_target_exists:
  assumes "existsSync fs (projectPathOf e c)"
  shows "createProject e c fs =
           (Exit 1, fs,
            [UiCancel (''Directory '' @ [CHR 0x22] @ projectName c @ [CHR 0x22]
                       @ '' already exists.'')])"
  using assms by (simp add: createProject_def projectPathOf_def Let_def io_defs)

lemma stagesOf_append: "stagesOf (xs @ ys) = stagesOf xs @ stagesOf ys"
  by (simp add: stagesOf_def map_filter_def)

lemma stagesOf_Cons: "stagesOf (x # xs) = (case stageOf x of None \<Rightarrow> stagesOf xs | Some n \<Rightarrow> n # stagesOf xs)"
  by (simp add: stagesOf_def map_filter_def split: option.splits)

lemma stagesOf_Nil: "stagesOf [] = []"
  by (simp add: stagesOf_def map_filter_def)

lemma stagesOf_writes: "list_all isWrite evs \<Longrightarrow> stagesOf evs = replicate (length evs) 1"
proof (induction evs)
  case Nil
  show ?case by (simp add: stagesOf_Nil)
next
  case (Cons x xs)
  then show ?case by (cases x) (simp_all add: stagesOf_Cons)
qed

lemma stagesOf_gits: "list_all isGit evs \<Longrightarrow> stagesOf evs = replicate (length evs) 3"
proof (induction evs)
  case Nil
  show ?case by (simp add: stagesOf_Nil)
next
  case (Cons x xs)
  then show ?case by (cases x) (simp_all add: stagesOf_Cons)
qed

lemma writes_only:
  assumes "list_all isWrite evs"
  shows "\<not> (\<exists>x\<in>set evs. isNpm x)" and "\<not> (\<exists>x\<in>set evs. isGit x)"
proof -
  have "\<And>x. isWrite x \<Longrightarrow> \<not> isNpm x \<and> \<not> isGit x"
  proof -
    fix x show "isWrite x \<Longrightarrow> \<not> isNpm x \<and> \<not> isGit x" by (cases x) simp_all
  qed
  with assms show "\<not> (\<exists>x\<in>set evs. isNpm x)" and "\<not> (\<exists>x\<in>set evs. isGit x)"
    by (auto simp: list_all_iff)
qed

lemma gits_only:
  assumes "list_all isGit evs"
  shows "\<not> (\<exists>x\<in>set evs. isNpm x)" and "\<not> (\<exists>x\<in>set evs. isWrite x)"
proof -
  have "\<And>x. isGit x \<Longrightarrow> \<not> isNpm x \<and> \<not> isWrite x"
  proof -
    fix x show "isGit x \<Longrightarrow> \<not> isNpm x \<and> \<not> isWrite x" by (cases x) auto
  qed
  with assms show "\<not> (\<exists>x\<in>set evs. isNpm x)" and "\<not> (\<exists>x\<in>set evs. isWrite x)"
    by (auto simp: list_all_iff)
qed

lemma sorted_stages: "sorted (replicate n (Suc 0) @ 2 # replicate m 3)"
  by (auto simp: sorted_append)

lemma sorted_stages1: "sorted (replicate n (Suc 0) @ [2])"
  by (auto simp: sorted_append)

lemma install_shape:
  obtains r fs2 where
    "installDependencies e pp fs1 = (r, fs2, [Exec ''npm'' [''install''] pp])" and "settles r"
proof -
  obtain r fs2 ev where i: "installDependencies e pp fs1 = (r, fs2, ev)"
    by (cases "installDependencies e pp fs1")
  with installDependencies_events[of e pp fs1] installDependencies_settles[of e pp fs1]
  have "ev = [Exec ''npm'' [''install''] pp]" "settles r" by simp_all
  with i that show ?thesis by simp
qed

section \<open>The prompts\<close>

lemma default_name_valid: "validateName ''my-express-app'' = None"
  by (simp add: validateName_iff matchesSpecPattern_def specNameChars_def)

lemma textPrompt_validated:
  assumes "textPrompt validateName dflt early xs = Some (Answer s)"
    and "validateName dflt = None"
  shows "validateName s = None"
  using assms
proof (induction xs)
  case Nil
  then show ?case by simp
next
  case (Cons a xs)
  show ?case
  proof (cases a)
    case Cancelled
    with Cons.prems show ?thesis by simp
  next
    case (Answer raw)
    with Cons show ?thesis
      by (auto simp: Let_def split: option.splits if_splits)
  qed
qed

lemma runPrompts_result:
  assumes "runPrompts e fs = (Ok (Some c), fs', evs)"
  shows "fs' = fs" and "evs = [UiIntro]"
    and "textPrompt validateName ''my-express-app'' (defaultBeforeValidate e) (textInputs e)
           = Some (Answer (projectName c))"
    and "selectInput e = Answer (tsStrictness c)"
    and "confirmInput e = Answer (initGit c)"
  using assms
  by (auto simp: runPrompts_def promptOrCancel_def io_defs
           split: option.splits answer.splits)

lemma main_after_prompts:
  assumes "runPrompts e fs = (Ok (Some c), fs', evs)"
  shows "main e fs =
           (case createProject e c fs of
              (Ok u, fs2, ev2) \<Rightarrow>
                (Ok (), fs2,
                 ConsoleClear # evs @ ConsoleLog # ev2
                   @ [UiNote (''cd '' @ projectName c),
                      UiOutro (projectName c) (getTsStrictnessDescription (tsStrictness c))])
            | (Throw err, fs2, ev2) \<Rightarrow>
                (Exit 1, fs2,
                 ConsoleClear # evs @ ConsoleLog # ev2
                   @ [UiCancel ''Error creating project'', ConsoleError err])
            | (Exit n, fs2, ev2) \<Rightarrow> (Exit n, fs2, ConsoleClear # evs @ ConsoleLog # ev2)
            | (Blocked, fs2, ev2) \<Rightarrow> (Blocked, fs2, ConsoleClear # evs @ ConsoleLog # ev2))"
proof -
  from runPrompts_result(1)[OF assms] assms
  have rp: "runPrompts e fs = (Ok (Some c), fs, evs)" by simp
  obtain r fs2 ev2 where cp: "createProject e c fs = (r, fs2, ev2)"
    by (cases "createProject e c fs")
  show ?thesis
    by (cases r) (simp_all add: main_def displaySuccessMessage_def io_defs rp cp)
qed

lemma demo_prompts:
  "runPrompts demoEnv fs = (Ok (Some demoChoices), fs, [UiIntro])"
proof -
  have bad: "validateName ''my app'' \<noteq> None"
    by (simp add: validateName_iff matchesSpecPattern_def specNameChars_def)
  have good: "validateName ''demo-app'' = None"
    by (simp add: validateName_iff matchesSpecPattern_def specNameChars_def)
  have "textPrompt validateName ''my-express-app'' False [Answer ''my app'', Answer ''demo-app'']
          = Some (Answer ''demo-app'')"
    using bad good by (auto simp: Let_def)
  then show ?thesis
    by (simp add: runPrompts_def promptOrCancel_def io_defs demoEnv_def demoChoices_def)
qed

section \<open>The store of objects\<close>

lemma basic_states [simp]:
  "fst (snd (emit x w)) = w"
  "fst (snd (returnIO a w)) = w"
  "fst (snd (throwIO err w)) = w"
  "fst (snd (exitIO n w)) = w"
  by (simp_all add: emit_def returnIO_def throwIO_def exitIO_def)

lemma bindIO_objects:
  assumes "\<And>w. objects (fst (snd (m w))) = objects w"
    and "\<And>a w. objects (fst (snd (f a w))) = objects w"
  shows "objects (fst (snd (bindIO m f w))) = objects w"
proof (cases "m w")
  case (fields r w1 ev1)
  with assms(1)[of w] have o1: "objects w1 = objects w" by simp
  show ?thesis
  proof (cases r)
    case (Ok a)
    obtain r2 w2 ev2 where f: "f a w1 = (r2, w2, ev2)" by (cases "f a w1")
    with assms(2)[of a w1] have "objects w2 = objects w1" by simp
    with o1 fields Ok f show ?thesis by (simp add: bindIO_def)
  qed (use o1 fields in \<open>simp_all add: bindIO_def\<close>)
qed

lemma tryCatch_objects:
  assumes "\<And>w. objects (fst (snd (m w))) = objects w"
    and "\<And>err w. objects (fst (snd (h err w))) = objects w"
  shows "objects (fst (snd (tryCatch m h w))) = objects w"
proof (cases "m w")
  case (fields r w1 ev1)
  with assms(1)[of w] have o1: "objects w1 = objects w" by simp
  show ?thesis
  proof (cases r)
    case (Throw err)
    obtain r2 w2 ev2 where h: "h err w1 = (r2, w2, ev2)" by (cases "h err w1")
    with assms(2)[of err w1] have "objects w2 = objects w1" by simp
    with o1 fields Throw h show ?thesis by (simp add: tryCatch_def)
  qed (use o1 fields in \<open>simp_all add: tryCatch_def\<close>)
qed

lemma liftFs_objects: "objects (fst (snd (liftFs m w))) = objects w"
  by (simp add: liftFs_def split: prod.splits)

lemma getObject_objects: "objects (fst (snd (getObject r w))) = objects w"
  by (simp add: getObject_def)

lemma displaySuccessMessage_objects:
  "objects (fst (snd (displaySuccessMessage name description w))) = objects w"
  unfolding displaySuccessMessage_def by (intro bindIO_objects) simp_all

lemma createProject_obj_objects: "objects (fst (snd (createProject_obj e r w))) = objects w"
  unfolding createProject_obj_def
  by (rule bindIO_objects)
     (auto simp: Let_def getObject_objects
           intro!: bindIO_objects tryCatch_objects liftFs_objects)

text \<open>With the object read, the function over the store is the function over the record.\<close>

lemma createProject_obj_value:
  assumes "r < length (objects w)"
  shows "createProject_obj e r w = liftFs (createProject e (objects w ! r)) w"
proof -
  obtain r1 fs1 ev1 where m: "copyProjectFiles (getTemplatesDirectory e (files w))
        (path_resolve (processCwd e) (projectName (objects w ! r)))
        (projectName (objects w ! r)) (tsStrictness (objects w ! r)) (files w) = (r1, fs1, ev1)"
    by (cases "copyProjectFiles (getTemplatesDirectory e (files w))
        (path_resolve (processCwd e) (projectName (objects w ! r)))
        (projectName (objects w ! r)) (tsStrictness (objects w ! r)) (files w)")
  obtain r2 fs2 ev2 where i: "installDependencies e
        (path_resolve (processCwd e) (projectName (objects w ! r))) fs1 = (r2, fs2, ev2)"
    by (cases "installDependencies e
        (path_resolve (processCwd e) (projectName (objects w ! r))) fs1")
  obtain r3 fs3 ev3 where g: "initializeGitRepository e
        (path_resolve (processCwd e) (projectName (objects w ! r))) fs2 = (r3, fs3, ev3)"
    by (cases "initializeGitRepository e
        (path_resolve (processCwd e) (projectName (objects w ! r))) fs2")
  show ?thesis
    using assms
    by (cases r1; cases r2; cases r3)
       (simp_all add: createProject_obj_def createProject_def getObject_def liftFs_def Let_def
          io_defs m i g)
qed

lemma runPrompts_obj_result:
  assumes "runPrompts_obj e w = (Ok (Some r), w1, evs)"
  shows "r = length (objects w)" and "files w1 = files w"
    and "\<exists>c. objects w1 = objects w @ [c]
             \<and> textPrompt validateName ''my-express-app'' (defaultBeforeValidate e) (textInputs e)
                 = Some (Answer (projectName c))
             \<and> selectInput e = Answer (tsStrictness c)
             \<and> confirmInput e = Answer (initGit c)"
  using assms
  by (auto simp: runPrompts_obj_def promptOrCancel_def newObject_def io_defs
           split: option.splits answer.splits)

lemma bindIO_state:
  "m w = (Ok a, w1, ev1) \<Longrightarrow> fst (snd (bindIO m f w)) = fst (snd (f a w1))"
  by (simp add: bindIO_def split: prod.splits)

lemma main_obj_objects:
  assumes "runPrompts_obj e w = (Ok (Some r), w1, evs)"
  shows "objects (fst (snd (main_obj e w))) = objects w1"
proof -
  define rest where "rest = (\<lambda>choices.
       case choices of
         None \<Rightarrow> exitIO 0
       | Some c \<Rightarrow>
           bindIO (emit ConsoleLog) (\<lambda>_.
           tryCatch
             (bindIO (createProject_obj e c) (\<lambda>_.
              bindIO (getObject c) (\<lambda>forStrictness.
              bindIO (getObject c) (\<lambda>forName.
                displaySuccessMessage (projectName forName)
                  (getTsStrictnessDescription (tsStrictness forStrictness))))))
             (\<lambda>err. bindIO (emit (UiCancel ''Error creating project'')) (\<lambda>_.
                     bindIO (emit (ConsoleError err)) (\<lambda>_. exitIO 1)))))"
  have m: "main_obj e = bindIO (emit ConsoleClear) (\<lambda>_. bindIO (runPrompts_obj e) rest)"
    by (simp add: main_obj_def rest_def)
  have "emit ConsoleClear w = (Ok (), w, [ConsoleClear])" by (simp add: emit_def)
  then have "fst (snd (main_obj e w)) = fst (snd (bindIO (runPrompts_obj e) rest w))"
    unfolding m by (rule bindIO_state)
  also have "\<dots> = fst (snd (rest (Some r) w1))"
    using assms by (rule bindIO_state)
  finally have "objects (fst (snd (main_obj e w))) = objects (fst (snd (rest (Some r) w1)))"
    by simp
  also have "\<dots> = objects w1"
    unfolding rest_def
    by (auto intro!: bindIO_objects tryCatch_objects createProject_obj_objects
          getObject_objects displaySuccessMessage_objects)
  finally show ?thesis .
qed

lemma demo_prompts_obj:
  "runPrompts_obj demoEnv \<lparr>files = fs, objects = os\<rparr>
     = (Ok (Some (length os)), \<lparr>files = fs, objects = os @ [demoChoices]\<rparr>, [UiIntro])"
proof -
  have bad: "validateName ''my app'' \<noteq> None"
    by (simp add: validateName_iff matchesSpecPattern_def specNameChars_def)
  have good: "validateName ''demo-app'' = None"
    by (simp add: validateName_iff matchesSpecPattern_def specNameChars_def)
  have "textPrompt validateName ''my-express-app'' False [Answer ''my app'', Answer ''demo-app'']
          = Some (Answer ''demo-app'')"
    using bad good by (auto simp: Let_def)
  then show ?thesis
    by (simp add: runPrompts_obj_def promptOrCancel_def newObject_def io_defs demoEnv_def
          demoChoices_def)
qed

section \<open>The example run\<close>

lemma demo_setting:
  assumes "processCwd e = [''work'']" and "currentDirectory e = [''pkg'']"
    and "projectName c = ''demo-app''"
  shows "projectPathOf e c = [''work'', ''demo-app'']"
    and "\<not> existsSync demoFs (projectPathOf e c)"
    and "materialize e c demoFs = (Ok (), demoMaterialized (tsStrictness c), demoWrites)"
    and "pathError (projectPathOf e c @ [''package-lock.json'']) = None"
proof -
  have v: "matchesSpecPattern ''demo-app''"
    by (simp add: matchesSpecPattern_def specNameChars_def)
  show pp: "projectPathOf e c = [''work'', ''demo-app'']"
    using path_resolve_child[OF v, of "[''work'']"] assms by (simp add: projectPathOf_def)
  show a: "\<not> existsSync demoFs (projectPathOf e c)"
    by (simp add: pp existsSync_def nodeAt_def demoFs_def demoEntries_def)
  show "pathError (projectPathOf e c @ [''package-lock.json'']) = None"
    by (simp add: pp pathError_def pathLength_def)
  have td: "getTemplatesDirectory e demoFs = [''pkg'', ''templates'']"
    using assms(2)
    by (simp add: getTemplatesDirectory_def path_join_literals existsSync_def nodeAt_def
          demoFs_def demoEntries_def pathError_def pathLength_def)
  have d: "nodeAt demoFs [''work''] = Some Dir"
    by (simp add: nodeAt_def demoFs_def demoEntries_def)
  from a have a': "\<not> existsSync demoFs ([''work''] @ [''demo-app''])" by (simp add: pp)
  have acc: "pathError ([''work''] @ [''demo-app'']) = None"
    by (simp add: pathError_def pathLength_def)
  have len: "pathLength ([''work''] @ [''demo-app'']) + 14 \<le> 4095"
    by (simp add: pathLength_def)
  from materialize_result[OF demoFs_tree d a' demoFs_store acc len,
      of "''demo-app''" "tsStrictness c"]
  show "materialize e c demoFs = (Ok (), demoMaterialized (tsStrictness c), demoWrites)"
    by (simp add: materialize_def td pp assms(3) demo_manifest demoMaterialized_def demoWrites_def)
qed

lemma demo_git_missing:
  "initializeGitRepository demoEnv pp fs =
     (Throw (ExecError ''git''), fs, [Exec ''git'' [''init''] pp])"
  by (simp add: initializeGitRepository_def execa_def bindIO_def demoEnv_def demoSubprocess_def)

lemma demo_install:
  assumes "pathError (pp @ [''package-lock.json'']) = None"
  shows "installDependencies demoEnv pp fs =
     (Ok (), fs(pp @ [''package-lock.json''] \<mapsto> File ''{}''), [Exec ''npm'' [''install''] pp])"
  using assms
  by (intro install_succeeds)
     (simp_all add: demoEnv_def demoSubprocess_def existsSync_def nodeAt_def)

lemma deepCwd_length: "pathLength deepCwd = 4073"
  by (simp add: deepCwd_def pathLength_def sum_list_replicate)

lemma deepCwd_accepted: "pathError deepCwd = None"
  by (simp add: pathError_None_iff deepCwd_length) (auto simp: deepCwd_def)

lemma deepCwd_head: "\<exists>r. deepCwd = replicate 255 CHR ''d'' # r"
  by (simp add: deepCwd_def numeral_eq_Suc)

lemma deepFs_outside:
  assumes "hd p \<noteq> replicate 255 CHR ''d''"
  shows "deepFs p = demoFs p"
proof -
  obtain r where r: "deepCwd = replicate 255 CHR ''d'' # r" using deepCwd_head by blast
  have "\<not> (p \<noteq> [] \<and> prefix p deepCwd)"
    using assms unfolding r by (cases p) auto
  then show ?thesis by (auto simp: deepFs_def)
qed

lemma demoFs_heads: "demoFs p \<noteq> None \<Longrightarrow> hd p = ''work'' \<or> hd p = ''pkg''"
  by (auto simp: demoFs_def demoEntries_def split: if_splits)

lemma deep_names:
  "''work'' \<noteq> replicate 255 CHR ''d''" "''pkg'' \<noteq> replicate 255 CHR ''d''"
  by (auto dest: arg_cong[where f = length])

lemma deepFs_demo: "demoFs p \<noteq> None \<Longrightarrow> deepFs p = demoFs p"
  using demoFs_heads[of p] deep_names by (intro deepFs_outside) auto

lemma deepFs_tree: "treeShaped deepFs"
  unfolding treeShaped_def
proof (intro allI impI)
  fix p assume ex: "deepFs p \<noteq> None"
  show "pathError p = None \<and> (\<forall>q. strict_prefix q p \<longrightarrow> nodeAt deepFs q = Some Dir)"
  proof (cases "p \<noteq> [] \<and> prefix p deepCwd")
    case True
    then have "pathError p = None" using deepCwd_accepted pathError_prefix by blast
    moreover have "nodeAt deepFs q = Some Dir" if "strict_prefix q p" for q
    proof -
      from that True have "prefix q deepCwd" by (auto simp: strict_prefix_def prefix_def)
      then show ?thesis by (simp add: nodeAt_def deepFs_def)
    qed
    ultimately show ?thesis by blast
  next
    case False
    with ex have d: "demoFs p \<noteq> None" by (auto simp: deepFs_def split: if_splits)
    with demoFs_tree have a: "pathError p = None"
      and b: "\<And>q. strict_prefix q p \<Longrightarrow> nodeAt demoFs q = Some Dir"
      unfolding treeShaped_def by blast+
    have "nodeAt deepFs q = Some Dir" if "strict_prefix q p" for q
      using b[OF that] by (auto simp: nodeAt_def deepFs_def)
    with a show ?thesis by blast
  qed
qed

lemma deepFs_store:
  "templateStore [''pkg'', ''templates''] ''app.listen(PORT)'' ''node_modules'' demoTemplate demoTsconfig
     \<subseteq>\<^sub>m deepFs"
  unfolding map_le_def
proof
  fix p
  assume "p \<in> dom (templateStore [''pkg'', ''templates''] ''app.listen(PORT)'' ''node_modules''
                     demoTemplate demoTsconfig)"
  with demoFs_store
  have e: "templateStore [''pkg'', ''templates''] ''app.listen(PORT)'' ''node_modules''
             demoTemplate demoTsconfig p = demoFs p" and "demoFs p \<noteq> None"
    by (auto simp: map_le_def dom_def)
  then show "templateStore [''pkg'', ''templates''] ''app.listen(PORT)'' ''node_modules''
               demoTemplate demoTsconfig p = deepFs p"
    by (simp add: deepFs_demo)
qed

section \<open>The pipeline\<close>

text \<open>
  C1. When the resolved target path already exists, as a file or as a directory,
  \<^verbatim>\<open>createProject\<close> reports the conflict and ends the process with exit code 1. The
  file system is left as it was and the run makes no write and starts no subprocess:
  its only event is the message.
\<close>

theorem C1_existing_target_aborts:
  assumes "existsSync fs (path_resolve (processCwd e) (projectName c))"
  shows "createProject e c fs =
           (Exit 1, fs,
            [UiCancel (''Directory '' @ [CHR 0x22] @ projectName c @ [CHR 0x22]
                       @ '' already exists.'')])
         \<and> processExitCode (fst (createProject e c fs)) = Some 1"
  using assms by (simp add: createProject_def Let_def bindIO_def emit_def exitIO_def)

theorem C1_witness:
  "existsSync demoFs (path_resolve [] ''pkg'')
   \<and> fst (createProject (demoEnv\<lparr>processCwd := []\<rparr>) (demoChoices\<lparr>projectName := ''pkg''\<rparr>) demoFs)
       = Exit 1
   \<and> snd (createProject (demoEnv\<lparr>processCwd := []\<rparr>) (demoChoices\<lparr>projectName := ''pkg''\<rparr>) demoFs)
       = (demoFs, [UiCancel (''Directory '' @ [CHR 0x22] @ ''pkg'' @ [CHR 0x22] @ '' already exists.'')])"
proof -
  have ex: "existsSync demoFs (path_resolve [] ''pkg'')"
    by (simp add: path_resolve_def pathStep_def existsSync_def nodeAt_def demoFs_def demoEntries_def
          pathError_def pathLength_def)
  then have "existsSync demoFs
               (path_resolve (processCwd (demoEnv\<lparr>processCwd := []\<rparr>))
                  (projectName (demoChoices\<lparr>projectName := ''pkg''\<rparr>)))"
    by simp
  from C1_existing_target_aborts[OF this] ex show ?thesis by simp
qed

text \<open>
  C2. After a successful materialization, when \<^verbatim>\<open>npm install\<close> does not exit with
  code 0, or exits with code 0 and leaves no \<^verbatim>\<open>package-lock.json\<close> in the target
  directory, \<^verbatim>\<open>createProject\<close> throws, and no event of the run is a Git subprocess.
\<close>

theorem C2_install_failure_skips_git:
  assumes "\<not> existsSync fs (projectPathOf e c)"
    and "materialize e c fs = (Ok (), fs1, ev1)"
    and "subprocess e ''npm'' [''install''] (projectPathOf e c) fs1 = (ok, fs2)"
    and "\<not> ok \<or> \<not> existsSync fs2 (projectPathOf e c @ [''package-lock.json''])"
  shows "createProject e c fs =
           (Throw (if ok then Error ''package-lock.json was not generated'' else ExecError ''npm''),
            fs2,
            evCreating # ev1
              @ [evCreated, evInstalling, Exec ''npm'' [''install''] (projectPathOf e c),
                 SpinnerStop ''Error installing dependencies''])
         \<and> list_all (\<lambda>x. \<not> isGit x) (snd (snd (createProject e c fs)))"
proof -
  have cp: "createProject e c fs =
           (Throw (if ok then Error ''package-lock.json was not generated'' else ExecError ''npm''),
            fs2,
            evCreating # ev1
              @ [evCreated, evInstalling] @ [Exec ''npm'' [''install''] (projectPathOf e c)]
              @ [SpinnerStop ''Error installing dependencies''])"
    by (rule createProject_install_throws[OF assms(1,2) install_fails[OF assms(3,4)]])
  from materialize_events[of e c fs] assms(2) have "list_all isWrite ev1" by simp
  then have "list_all (\<lambda>x. \<not> isGit x) ev1"
    using write_not_git by (auto simp: list_all_iff)
  with cp show ?thesis by (simp add: ev_defs)
qed

theorem C2_witness:
  "\<not> existsSync demoFs (projectPathOf (demoEnv\<lparr>subprocess := \<lambda>cmd args wd fs. (True, fs)\<rparr>) demoChoices)
   \<and> fst (materialize (demoEnv\<lparr>subprocess := \<lambda>cmd args wd fs. (True, fs)\<rparr>) demoChoices demoFs)
       = Ok ()
   \<and> fst (createProject (demoEnv\<lparr>subprocess := \<lambda>cmd args wd fs. (True, fs)\<rparr>) demoChoices demoFs)
       = Throw (Error ''package-lock.json was not generated'')"
proof -
  define e where "e = demoEnv\<lparr>subprocess := \<lambda>cmd args wd fs. (True, fs)\<rparr>"
  have s: "processCwd e = [''work'']" "currentDirectory e = [''pkg'']"
    "projectName demoChoices = ''demo-app''"
    by (simp_all add: e_def demoEnv_def demoChoices_def)
  note d = demo_setting[OF s]
  have sp: "subprocess e ''npm'' [''install''] (projectPathOf e demoChoices)
              (demoMaterialized (tsStrictness demoChoices))
            = (True, demoMaterialized (tsStrictness demoChoices))"
    by (simp add: e_def)
  have nl: "\<not> True \<or> \<not> existsSync (demoMaterialized (tsStrictness demoChoices))
                          (projectPathOf e demoChoices @ [''package-lock.json''])"
    by (simp add: d(1) existsSync_def nodeAt_def demoMaterialized_def demoFs_def demoEntries_def
          pathError_def pathLength_def)
  from C2_install_failure_skips_git[OF d(2) d(3) sp nl] d(2) d(3)
  show ?thesis by (simp add: e_def)
qed

text \<open>
  C3. After a successful materialization and a successful install, with Git
  requested, a failure of the Git commands is caught: \<^verbatim>\<open>createProject\<close> returns, the
  spinner shows the warning, \<^verbatim>\<open>main\<close> prints the success message and returns, and the
  process exits with code 0.
\<close>

theorem C3_git_failure_is_not_fatal:
  assumes "fst (runPrompts e fs) = Ok (Some c)"
    and "\<not> existsSync fs (projectPathOf e c)"
    and "materialize e c fs = (Ok (), fs1, ev1)"
    and "installDependencies e (projectPathOf e c) fs1 = (Ok (), fs2, ev2)"
    and "initGit c"
    and "initializeGitRepository e (projectPathOf e c) fs2 = (Throw err, fs3, ev3)"
  shows "createProject e c fs =
           (Ok (), fs3,
            evCreating # ev1 @ [evCreated, evInstalling] @ ev2 @ [evInstalled, evGitStart]
              @ ev3 @ [SpinnerStop ''Error initializing Git (may not be installed)''])
         \<and> fst (main e fs) = Ok ()
         \<and> processExitCode (fst (main e fs)) = Some 0
         \<and> SpinnerStop ''Error initializing Git (may not be installed)'' \<in> set (snd (snd (main e fs)))
         \<and> UiOutro (projectName c) (getTsStrictnessDescription (tsStrictness c))
             \<in> set (snd (snd (main e fs)))"
proof -
  note cp = createProject_git_throws[OF assms(2-6)]
  obtain fs' evs where rp: "runPrompts e fs = (Ok (Some c), fs', evs)"
    using assms(1) by (cases "runPrompts e fs") auto
  from main_after_prompts[OF rp] cp show ?thesis by simp
qed

theorem C3_witness:
  "fst (runPrompts demoEnv demoFs) = Ok (Some demoChoices)
   \<and> \<not> existsSync demoFs (projectPathOf demoEnv demoChoices)
   \<and> fst (materialize demoEnv demoChoices demoFs) = Ok ()
   \<and> initGit demoChoices
   \<and> Exec ''git'' [''init''] [''work'', ''demo-app'']
        \<in> set (snd (snd (createProject demoEnv demoChoices demoFs)))
   \<and> fst (createProject demoEnv demoChoices demoFs) = Ok ()
   \<and> processExitCode (fst (main demoEnv demoFs)) = Some 0
   \<and> SpinnerStop ''Error initializing Git (may not be installed)'' \<in> set (snd (snd (main demoEnv demoFs)))"
proof -
  have s: "processCwd demoEnv = [''work'']" "currentDirectory demoEnv = [''pkg'']"
    "projectName demoChoices = ''demo-app''" "initGit demoChoices"
    by (simp_all add: demoEnv_def demoChoices_def)
  note d = demo_setting[OF s(1-3)]
  have p: "fst (runPrompts demoEnv demoFs) = Ok (Some demoChoices)"
    by (simp add: demo_prompts)
  from C3_git_failure_is_not_fatal[OF p d(2) d(3) demo_install[OF d(4)] s(4) demo_git_missing]
    p d s(4)
  show ?thesis by simp
qed

text \<open>
  C4, as amended. For a project name that the validator accepts, of at most 255 bytes
  and with a target path short enough for the longest path written (14 bytes more than
  the target, 4095 in all), and any strictness level: when the target path does not
  exist, the materializer succeeds and adds exactly the target directory, its \<^verbatim>\<open>src\<close>
  directory, the entry file, the ignore file, the manifest and the configuration file of
  the chosen strictness. The manifest is the decoded template with every match of the
  placeholder replaced by the name: no placeholder is left and the name occurs in it.
  Every entry that existed before, the template tree included, is unchanged. The
  template files are parameters (the template store); the manifest template, as decoded,
  is taken to contain the placeholder and to open a double brace nowhere else.
\<close>

theorem C4_materialization:
  assumes valid: "validateName name = None"
    and short: "length name \<le> 255"
    and fits: "pathLength (path_resolve wd name) + 14 \<le> 4095"
    and tree: "treeShaped fs"
    and cwd: "nodeAt fs wd = Some Dir"
    and absent: "\<not> existsSync fs (path_resolve wd name)"
    and store: "templateStore td indexTs gitignore packageTemplate tsconfig \<subseteq>\<^sub>m fs"
    and tpl: "manifestTemplateOk (decodeUtf8 packageTemplate)"
  shows "copyProjectFiles td (path_resolve wd name) name s fs =
           (Ok (),
            fs(path_resolve wd name \<mapsto> Dir,
               path_resolve wd name @ [''src''] \<mapsto> Dir,
               path_resolve wd name @ [''src'', ''index.ts''] \<mapsto> File indexTs,
               path_resolve wd name @ [''.gitignore''] \<mapsto> File gitignore,
               path_resolve wd name @ [''package.json'']
                 \<mapsto> File (replacePlaceholder (decodeUtf8 packageTemplate) name),
               path_resolve wd name @ [''tsconfig.json''] \<mapsto> File (tsconfig s)),
            [FsWrite (path_resolve wd name),
             FsWrite (path_resolve wd name @ [''src'']),
             FsWrite (path_resolve wd name @ [''src'', ''index.ts'']),
             FsWrite (path_resolve wd name @ [''.gitignore'']),
             FsWrite (path_resolve wd name @ [''package.json'']),
             FsWrite (path_resolve wd name @ [''tsconfig.json''])])
         \<and> \<not> sublist placeholder (replacePlaceholder (decodeUtf8 packageTemplate) name)
         \<and> sublist name (replacePlaceholder (decodeUtf8 packageTemplate) name)
         \<and> (\<forall>q. fs q \<noteq> None \<longrightarrow>
                fst (snd (copyProjectFiles td (path_resolve wd name) name s fs)) q = fs q)"
proof -
  from valid have v: "matchesSpecPattern name" by (simp add: validateName_iff)
  have pp: "path_resolve wd name = wd @ [name]" by (rule path_resolve_child[OF v])
  from absent have absent': "\<not> existsSync fs (wd @ [name])" by (simp add: pp)
  have accwd: "pathError wd = None"
  proof (cases "wd = []")
    case True
    then show ?thesis by (simp add: pathError_def pathLength_def)
  next
    case False
    with cwd have "fs wd = Some Dir" by (simp add: nodeAt_def)
    then show ?thesis by (rule existing_accepted[OF tree])
  qed
  from fits have len: "pathLength (wd @ [name]) + 14 \<le> 4095" by (simp add: pp)
  have acc: "pathError (wd @ [name]) = None"
    using spec_chars_no_nul[OF v] short len
    by (intro pathError_extend[OF accwd]) (simp_all add: pathLength_append)
  note res = materialize_result[OF tree cwd absent' store acc len, of name s]
  have B: "\<And>r. fs (wd @ name # r) = None"
    using below_absent[OF tree absent'] by simp
  have keep: "\<forall>q. fs q \<noteq> None \<longrightarrow>
                fst (snd (copyProjectFiles td (wd @ [name]) name s fs)) q = fs q"
  proof (intro allI impI)
    fix q assume "fs q \<noteq> None"
    with B have "\<And>r. q \<noteq> wd @ name # r" by auto
    then show "fst (snd (copyProjectFiles td (wd @ [name]) name s fs)) q = fs q"
      by (simp add: res)
  qed
  from res keep manifest_ok[OF v tpl] show ?thesis by (simp add: pp)
qed

theorem C4_witness:
  "validateName ''demo-app'' = None
   \<and> length ''demo-app'' \<le> 255
   \<and> pathLength (path_resolve [''work''] ''demo-app'') + 14 \<le> 4095
   \<and> treeShaped demoFs
   \<and> nodeAt demoFs [''work''] = Some Dir
   \<and> \<not> existsSync demoFs (path_resolve [''work''] ''demo-app'')
   \<and> manifestTemplateOk (decodeUtf8 demoTemplate)
   \<and> demoFs [''pkg'', ''templates'', ''base'', ''package.template.json''] \<noteq> None
   \<and> fst (copyProjectFiles [''pkg'', ''templates''] (path_resolve [''work''] ''demo-app'')
            ''demo-app'' Strict demoFs) = Ok ()
   \<and> fst (snd (copyProjectFiles [''pkg'', ''templates''] (path_resolve [''work''] ''demo-app'')
            ''demo-app'' Strict demoFs)) [''work'', ''demo-app'', ''package.json'']
       = Some (File ''{name: demo-app, bin: demo-app}'')"
proof -
  have v: "validateName ''demo-app'' = None"
    by (simp add: validateName_iff matchesSpecPattern_def specNameChars_def)
  have pr: "path_resolve [''work''] ''demo-app'' = [''work'', ''demo-app'']"
    using path_resolve_child[of "''demo-app''" "[''work'']"] v by (simp add: validateName_iff)
  have l: "length ''demo-app'' \<le> 255" by simp
  have f: "pathLength (path_resolve [''work''] ''demo-app'') + 14 \<le> 4095"
    by (simp add: pr pathLength_def)
  have d: "nodeAt demoFs [''work''] = Some Dir"
    by (simp add: nodeAt_def demoFs_def demoEntries_def)
  have a: "\<not> existsSync demoFs (path_resolve [''work''] ''demo-app'')"
    by (simp add: pr existsSync_def nodeAt_def demoFs_def demoEntries_def)
  have t: "demoFs [''pkg'', ''templates'', ''base'', ''package.template.json''] \<noteq> None"
    by (simp add: demoFs_def demoEntries_def)
  from C4_materialization[OF v l f demoFs_tree d a demoFs_store demoTemplate_ok, of Strict]
    v l f demoFs_tree d a demoTemplate_ok t
  show ?thesis by (simp add: pr demo_manifest)
qed

text \<open>
  Without the bound on the length of the name the property fails. The validator accepts
  a name of 256 letters, the target does not exist and the templates are in place, and
  yet the first call of the materializer, \<^verbatim>\<open>ensureDir\<close>, is refused with \<^verbatim>\<open>ENAMETOOLONG\<close>:
  the materializer throws and nothing is written.
\<close>

theorem C4_counterexample:
  "validateName (replicate 256 CHR ''a'') = None
   \<and> treeShaped demoFs
   \<and> nodeAt demoFs [''work''] = Some Dir
   \<and> \<not> existsSync demoFs (path_resolve [''work''] (replicate 256 CHR ''a''))
   \<and> templateStore [''pkg'', ''templates''] ''app.listen(PORT)'' ''node_modules'' demoTemplate
        demoTsconfig \<subseteq>\<^sub>m demoFs
   \<and> manifestTemplateOk (decodeUtf8 demoTemplate)
   \<and> copyProjectFiles [''pkg'', ''templates''] (path_resolve [''work''] (replicate 256 CHR ''a''))
        (replicate 256 CHR ''a'') Strict demoFs
       = (Throw (FsError ''ENAMETOOLONG''), demoFs, [])"
proof -
  define name where "name = replicate 256 CHR ''a''"
  have v: "matchesSpecPattern name"
    by (simp add: name_def matchesSpecPattern_def list_all_iff specNameChars_def)
  then have vn: "validateName name = None" by (simp add: validateName_iff)
  have pp: "path_resolve [''work''] name = [''work''] @ [name]"
    by (rule path_resolve_child[OF v])
  have long: "pathError ([''work''] @ [name]) = Some (FsError ''ENAMETOOLONG'')"
    "pathError ([''work''] @ [name] @ [''src'']) = Some (FsError ''ENAMETOOLONG'')"
    using spec_chars_no_nul[OF v]
    by (simp_all add: pathError_def name_def)
  from long(1) have a: "\<not> existsSync demoFs (path_resolve [''work''] name)"
    by (simp add: pp existsSync_def)
  have d: "nodeAt demoFs [''work''] = Some Dir"
    by (simp add: nodeAt_def demoFs_def demoEntries_def)
  have "ensureDir (path_resolve [''work''] name @ [''src'']) demoFs
          = (Throw (FsError ''ENAMETOOLONG''), demoFs, [])"
    using long(2) by (simp add: pp ensureDir_def)
  then have "copyProjectFiles [''pkg'', ''templates''] (path_resolve [''work''] name) name Strict
               demoFs
             = (Throw (FsError ''ENAMETOOLONG''), demoFs, [])"
    by (simp add: copyProjectFiles_def path_join_literals bindIO_def)
  with vn demoFs_tree d a demoFs_store demoTemplate_ok show ?thesis
    unfolding name_def by blast
qed

text \<open>
  The bound on the whole path is needed as well, and its 14 bytes are exact. In the deep
  working directory the validator accepts \<^verbatim>\<open>demo-app\<close>, the target path is accepted and
  does not exist, and every path the materializer writes fits except the longest one,
  that of \<^verbatim>\<open>tsconfig.json\<close>, which takes 4096 bytes: the last copy is refused with
  \<^verbatim>\<open>ENAMETOOLONG\<close> after five writes.
\<close>

lemma deep_directory_materialization:
  "validateName ''demo-app'' = None
   \<and> length ''demo-app'' \<le> 255
   \<and> pathLength (path_resolve deepCwd ''demo-app'') + 14 = 4096
   \<and> treeShaped deepFs
   \<and> nodeAt deepFs deepCwd = Some Dir
   \<and> \<not> existsSync deepFs (path_resolve deepCwd ''demo-app'')
   \<and> templateStore [''pkg'', ''templates''] ''app.listen(PORT)'' ''node_modules'' demoTemplate
        demoTsconfig \<subseteq>\<^sub>m deepFs
   \<and> manifestTemplateOk (decodeUtf8 demoTemplate)
   \<and> fst (copyProjectFiles [''pkg'', ''templates''] (path_resolve deepCwd ''demo-app'')
            ''demo-app'' Strict deepFs) = Throw (FsError ''ENAMETOOLONG'')
   \<and> snd (snd (copyProjectFiles [''pkg'', ''templates''] (path_resolve deepCwd ''demo-app'')
                 ''demo-app'' Strict deepFs))
       = [FsWrite (deepCwd @ [''demo-app'']),
          FsWrite (deepCwd @ [''demo-app'', ''src'']),
          FsWrite (deepCwd @ [''demo-app'', ''src'', ''index.ts'']),
          FsWrite (deepCwd @ [''demo-app'', ''.gitignore'']),
          FsWrite (deepCwd @ [''demo-app'', ''package.json''])]"
proof -
  have v: "validateName ''demo-app'' = None"
    by (simp add: validateName_iff matchesSpecPattern_def specNameChars_def)
  have pr: "path_resolve deepCwd ''demo-app'' = deepCwd @ [''demo-app'']"
    using path_resolve_child[of "''demo-app''" deepCwd] v by (simp add: validateName_iff)
  have l: "pathLength (deepCwd @ [''demo-app'']) = 4082"
    by (simp add: pathLength_append deepCwd_length) (simp add: pathLength_def)
  have d: "nodeAt deepFs deepCwd = Some Dir"
    by (simp add: nodeAt_def deepFs_def)
  have pl: "pathLength [''demo-app''] = 9" by (simp add: pathLength_def)
  have acc: "pathError (deepCwd @ [''demo-app'']) = None"
    by (rule pathError_extend[OF deepCwd_accepted]) (simp_all add: deepCwd_length pl)
  obtain r where r: "deepCwd = replicate 255 CHR ''d'' # r" using deepCwd_head by blast
  have h: "hd (deepCwd @ [''demo-app'']) = replicate 255 CHR ''d''" unfolding r by simp
  have "demoFs (deepCwd @ [''demo-app'']) = None"
  proof (rule ccontr)
    assume "demoFs (deepCwd @ [''demo-app'']) \<noteq> None"
    from demoFs_heads[OF this] deep_names show False by (simp add: h)
  qed
  then have a: "\<not> existsSync deepFs (deepCwd @ [''demo-app''])"
    by (simp add: existsSync_def nodeAt_def deepFs_def)
  have l13: "pathLength (deepCwd @ [''demo-app'']) + 13 \<le> 4095" by (simp add: l)
  from materialize_steps[OF deepFs_tree d a deepFs_store acc l13, of "''demo-app''" Strict]
  have "copyProjectFiles [''pkg'', ''templates''] (deepCwd @ [''demo-app'']) ''demo-app'' Strict deepFs
          = (Throw (FsError ''ENAMETOOLONG''),
             deepFs(deepCwd @ [''demo-app''] \<mapsto> Dir,
                    deepCwd @ [''demo-app''] @ [''src''] \<mapsto> Dir,
                    deepCwd @ [''demo-app''] @ [''src'', ''index.ts''] \<mapsto> File ''app.listen(PORT)'',
                    deepCwd @ [''demo-app''] @ [''.gitignore''] \<mapsto> File ''node_modules'',
                    deepCwd @ [''demo-app''] @ [''package.json'']
                      \<mapsto> File (replacePlaceholder (decodeUtf8 demoTemplate) ''demo-app'')),
             [FsWrite (deepCwd @ [''demo-app'']),
              FsWrite (deepCwd @ [''demo-app''] @ [''src'']),
              FsWrite (deepCwd @ [''demo-app''] @ [''src'', ''index.ts'']),
              FsWrite (deepCwd @ [''demo-app''] @ [''.gitignore'']),
              FsWrite (deepCwd @ [''demo-app''] @ [''package.json''])])"
    by (simp only: l) simp
  with v l d a deepFs_tree deepFs_store demoTemplate_ok show ?thesis
    by (simp add: pr)
qed

text \<open>
  C5. When the user's choice \<^verbatim>\<open>initGit\<close> is false, no event of \<^verbatim>\<open>createProject\<close> is a Git
  subprocess, whatever the file system and the subprocesses do, so whether or not the
  materialization and the install succeed.
\<close>

theorem C5_no_git_unless_chosen:
  assumes "\<not> initGit c"
  shows "list_all (\<lambda>x. \<not> isGit x) (snd (snd (createProject e c fs)))"
  using assms unfolding createProject_def Let_def
  by (auto intro!: bindIO_events tryCatch_events copyProjectFiles_not_git
           simp: installDependencies_events)

theorem C5_witness:
  "\<not> initGit (demoChoices\<lparr>initGit := False\<rparr>)
   \<and> fst (createProject demoEnv (demoChoices\<lparr>initGit := False\<rparr>) demoFs) = Ok ()
   \<and> (\<exists>x\<in>set (snd (snd (createProject demoEnv (demoChoices\<lparr>initGit := False\<rparr>) demoFs))).
         isNpm x)
   \<and> list_all (\<lambda>x. \<not> isGit x)
       (snd (snd (createProject demoEnv (demoChoices\<lparr>initGit := False\<rparr>) demoFs)))"
proof -
  define c where "c = demoChoices\<lparr>initGit := False\<rparr>"
  have s: "processCwd demoEnv = [''work'']" "currentDirectory demoEnv = [''pkg'']"
    "projectName c = ''demo-app''" "\<not> initGit c"
    by (simp_all add: c_def demoEnv_def demoChoices_def)
  note d = demo_setting[OF s(1-3)]
  note cp = createProject_without_git[OF d(2) d(3) demo_install[OF d(4)] s(4)]
  have "\<exists>x\<in>set (snd (snd (createProject demoEnv c demoFs))). isNpm x"
    by (simp add: cp)
  with C5_no_git_unless_chosen [OF s(4), of demoEnv demoFs] s(4) cp
  show ?thesis by (simp add: c_def)
qed

text \<open>
  C6. The strictness level selects the configuration template: the three levels name
  three different template files, each of them present in the template store, and
  whenever the materializer succeeds, \<^verbatim>\<open>tsconfig.json\<close> in the target holds the content of
  the template of the chosen level.
\<close>

theorem C6_strictness_selects_template:
  assumes store: "templateStore td indexTs gitignore packageTemplate tsconfig \<subseteq>\<^sub>m fs"
    and ran: "copyProjectFiles td projectPath name s fs = (Ok (), fs', evs)"
  shows "inj (tsconfigSourcePath td)
         \<and> fs (tsconfigSourcePath td s) = Some (File (tsconfig s))
         \<and> fs' (projectPath @ [''tsconfig.json'']) = Some (File (tsconfig s))"
proof -
  have "inj (tsconfigSourcePath td)"
  proof (rule injI)
    fix x y assume "tsconfigSourcePath td x = tsconfigSourcePath td y"
    then show "x = y" by (cases x; cases y) (simp_all add: tsconfigSourcePath_simps)
  qed
  with materialize_tsconfig[OF store ran] templateStore_lookup(4)[OF store, of s]
  show ?thesis by simp
qed

theorem C6_witness:
  "copyProjectFiles [''pkg'', ''templates''] [''work'', ''demo-app''] ''demo-app'' Relaxed demoFs
     = (Ok (), demoMaterialized Relaxed, demoWrites)
   \<and> demoFs (tsconfigSourcePath [''pkg'', ''templates''] Relaxed) = Some (File ''{strict: false}'')
   \<and> demoMaterialized Relaxed [''work'', ''demo-app'', ''tsconfig.json'']
       = Some (File ''{strict: false}'')"
proof -
  define c where "c = demoChoices\<lparr>tsStrictness := Relaxed\<rparr>"
  have s: "processCwd demoEnv = [''work'']" "currentDirectory demoEnv = [''pkg'']"
    "projectName c = ''demo-app''" "tsStrictness c = Relaxed"
    by (simp_all add: c_def demoEnv_def demoChoices_def)
  note d = demo_setting[OF s(1-3)]
  have td: "getTemplatesDirectory demoEnv demoFs = [''pkg'', ''templates'']"
    by (simp add: getTemplatesDirectory_def path_join_literals existsSync_def nodeAt_def
          demoFs_def demoEntries_def pathError_def pathLength_def demoEnv_def)
  from d(3) have run: "copyProjectFiles [''pkg'', ''templates''] [''work'', ''demo-app'']
                         ''demo-app'' Relaxed demoFs
                       = (Ok (), demoMaterialized Relaxed, demoWrites)"
    by (simp add: materialize_def td d(1) s)
  from C6_strictness_selects_template[OF demoFs_store run] run
  show ?thesis by simp
qed

text \<open>
  C7. The stages run one after the other. In the events of any run of
  \<^verbatim>\<open>createProject\<close> the stages never go down: the writes of the materializer come first,
  then the install subprocess, then the Git subprocesses. A write happens only when the
  target was absent; the install starts only after the materializer has returned; a Git
  command runs only after the install, with its check of the lock file, has returned,
  and only when Git was requested.
\<close>

theorem C7_stages_in_order:
  "sorted (stagesOf (snd (snd (createProject e c fs))))
   \<and> ((\<exists>x\<in>set (snd (snd (createProject e c fs))). isWrite x) \<longrightarrow>
        \<not> existsSync fs (projectPathOf e c))
   \<and> ((\<exists>x\<in>set (snd (snd (createProject e c fs))). isNpm x) \<longrightarrow>
        \<not> existsSync fs (projectPathOf e c) \<and> fst (materialize e c fs) = Ok ())
   \<and> ((\<exists>x\<in>set (snd (snd (createProject e c fs))). isGit x) \<longrightarrow>
        \<not> existsSync fs (projectPathOf e c) \<and> fst (materialize e c fs) = Ok ()
        \<and> fst (installDependencies e (projectPathOf e c) (fst (snd (materialize e c fs))))
            = Ok ()
        \<and> initGit c)"
proof (cases "existsSync fs (projectPathOf e c)")
  case True
  from createProject_target_exists[OF True] show ?thesis
    by (simp add: stagesOf_Cons stagesOf_Nil)
next
  case absent: False
  obtain r1 fs1 ev1 where m: "materialize e c fs = (r1, fs1, ev1)"
    by (cases "materialize e c fs")
  from materialize_events[of e c fs] m have w: "list_all isWrite ev1" by simp
  note st1 = stagesOf_writes[OF w]
  note no1 = writes_only[OF w]
  from materialize_settles[of e c fs] m have "settles r1" by simp
  then show ?thesis
  proof (cases rule: settlesE)
    case (2 err)
    from createProject_materialize_throws[OF absent m[unfolded 2]] absent no1 st1
    show ?thesis
      by (simp add: stagesOf_Cons stagesOf_append stagesOf_Nil ev_defs)
  next
    case m1: (1 u)
    obtain r2 fs2 where i: "installDependencies e (projectPathOf e c) fs1
                              = (r2, fs2, [Exec ''npm'' [''install''] (projectPathOf e c)])"
      and "settles r2" by (rule install_shape)
    from \<open>settles r2\<close> show ?thesis
    proof (cases rule: settlesE)
      case i2: (2 err)
      from createProject_install_throws[OF absent m[unfolded m1] i[unfolded i2]] absent no1 st1 m m1
      show ?thesis
        by (simp add: stagesOf_Cons stagesOf_append stagesOf_Nil ev_defs sorted_stages1)
    next
      case i1: (1 u')
      show ?thesis
      proof (cases "initGit c")
        case False
        from createProject_without_git[OF absent m[unfolded m1] i[unfolded i1] False]
          absent no1 st1 m m1
        show ?thesis
          by (simp add: stagesOf_Cons stagesOf_append stagesOf_Nil ev_defs sorted_stages1)
      next
        case True
        obtain r3 fs3 ev3 where g: "initializeGitRepository e (projectPathOf e c) fs2 = (r3, fs3, ev3)"
          by (cases "initializeGitRepository e (projectPathOf e c) fs2")
        from initializeGitRepository_events[of e "projectPathOf e c" fs2] g
        have gg: "list_all isGit ev3" by simp
        note st3 = stagesOf_gits[OF gg]
        from initializeGitRepository_settles[of e "projectPathOf e c" fs2] g
        have "settles r3" by simp
        then show ?thesis
        proof (cases rule: settlesE)
          case g1: (1 u'')
          from createProject_git_done[OF absent m[unfolded m1] i[unfolded i1] True g[unfolded g1]]
            absent no1 st1 st3 m m1 i i1 True
          show ?thesis
            by (simp add: stagesOf_Cons stagesOf_append stagesOf_Nil ev_defs sorted_stages)
        next
          case g2: (2 err)
          from createProject_git_throws[OF absent m[unfolded m1] i[unfolded i1] True g[unfolded g2]]
            absent no1 st1 st3 m m1 i i1 True
          show ?thesis
            by (simp add: stagesOf_Cons stagesOf_append stagesOf_Nil ev_defs sorted_stages)
        qed
      qed
    qed
  qed
qed

theorem C7_witness:
  "(\<exists>x\<in>set (snd (snd (createProject demoEnv demoChoices demoFs))). isWrite x)
   \<and> (\<exists>x\<in>set (snd (snd (createProject demoEnv demoChoices demoFs))). isNpm x)
   \<and> (\<exists>x\<in>set (snd (snd (createProject demoEnv demoChoices demoFs))). isGit x)
   \<and> sorted (stagesOf (snd (snd (createProject demoEnv demoChoices demoFs))))
   \<and> fst (materialize demoEnv demoChoices demoFs) = Ok ()"
proof -
  have s: "processCwd demoEnv = [''work'']" "currentDirectory demoEnv = [''pkg'']"
    "projectName demoChoices = ''demo-app''" "initGit demoChoices"
    by (simp_all add: demoEnv_def demoChoices_def)
  note d = demo_setting[OF s(1-3)]
  note cp = createProject_git_throws[OF d(2) d(3) demo_install[OF d(4)] s(4) demo_git_missing]
  have "\<exists>x\<in>set (snd (snd (createProject demoEnv demoChoices demoFs))). isGit x"
    by (simp add: cp)
  moreover have "\<exists>x\<in>set (snd (snd (createProject demoEnv demoChoices demoFs))). isNpm x"
    by (simp add: cp)
  moreover have "\<exists>x\<in>set (snd (snd (createProject demoEnv demoChoices demoFs))). isWrite x"
    by (simp add: cp demoWrites_def)
  ultimately show ?thesis
    using C7_stages_in_order [of demoEnv demoChoices demoFs] by simp
qed

text \<open>
  C8. The prompt stage creates the record once: it adds one object to the store and
  returns the reference to it, and leaves the file system alone. The project name of
  that object is not empty and matches \<^verbatim>\<open>[A-Za-z0-9_-]+\<close>; the validator accepts exactly
  the strings of that pattern. No later stage changes the object: \<^verbatim>\<open>createProject\<close>, which
  receives the reference, returns with the store of objects as it found it, and at the
  end of \<^verbatim>\<open>main\<close>, however the run ends, the store is still as the prompt stage left it.
\<close>

theorem C8_prompted_choices_validated:
  assumes "runPrompts_obj e w = (Ok (Some r), w1, evs)"
  shows "r = length (objects w)
         \<and> objects w1 = objects w @ [objects w1 ! r]
         \<and> files w1 = files w
         \<and> projectName (objects w1 ! r) \<noteq> []
         \<and> matchesSpecPattern (projectName (objects w1 ! r))
         \<and> (\<forall>v. (validateName v = None) = matchesSpecPattern v)
         \<and> objects (fst (snd (createProject_obj e r w1))) = objects w1
         \<and> objects (fst (snd (main_obj e w))) = objects w1"
proof -
  note rp = runPrompts_obj_result[OF assms]
  from rp(3) obtain c where c: "objects w1 = objects w @ [c]"
    and t: "textPrompt validateName ''my-express-app'' (defaultBeforeValidate e) (textInputs e)
              = Some (Answer (projectName c))"
    by blast
  from c rp(1) have at: "objects w1 ! r = c" by simp
  from textPrompt_validated[OF t default_name_valid]
  have v: "matchesSpecPattern (projectName c)" by (simp add: validateName_iff)
  then have ne: "projectName c \<noteq> []" by (simp add: matchesSpecPattern_def)
  from v ne at c rp(1,2) createProject_obj_objects[of e r w1] main_obj_objects[OF assms]
  show ?thesis by (simp add: validateName_iff)
qed

theorem C8_witness:
  "runPrompts_obj demoEnv \<lparr>files = demoFs, objects = []\<rparr>
     = (Ok (Some 0), \<lparr>files = demoFs, objects = [demoChoices]\<rparr>, [UiIntro])
   \<and> matchesSpecPattern (projectName demoChoices)
   \<and> validateName ''my app'' \<noteq> None
   \<and> objects (fst (snd (main_obj demoEnv \<lparr>files = demoFs, objects = []\<rparr>))) = [demoChoices]"
  using C8_prompted_choices_validated [OF demo_prompts_obj [of demoFs "[]"]]
    demo_prompts_obj [of demoFs "[]"]
  by (simp add: matchesSpecPattern_def specNameChars_def)

text \<open>
  C9. When the user cancels one of the three prompts, the process ends at once with
  exit code 0: the file system is unchanged, and the events are the cleared screen, the
  intro and the cancellation message, so nothing is written and no subprocess runs.
\<close>

theorem C9_cancel_exits_zero:
  assumes "userCancels e"
  shows "main e fs = (Exit 0, fs, [ConsoleClear, UiIntro, UiCancel ''Operation cancelled.''])
         \<and> processExitCode (fst (main e fs)) = Some 0"
  using assms
  by (auto simp: userCancels_def main_def runPrompts_def promptOrCancel_def bindIO_def
        emit_def exitIO_def returnIO_def split: option.splits answer.splits)

theorem C9_witness:
  "userCancels (demoEnv\<lparr>textInputs := [Answer ''my app'', Cancelled]\<rparr>)
   \<and> userCancels (demoEnv\<lparr>confirmInput := Cancelled\<rparr>)
   \<and> main (demoEnv\<lparr>confirmInput := Cancelled\<rparr>) demoFs
       = (Exit 0, demoFs, [ConsoleClear, UiIntro, UiCancel ''Operation cancelled.''])"
proof -
  have bad: "validateName ''my app'' \<noteq> None"
    by (simp add: validateName_iff matchesSpecPattern_def specNameChars_def)
  have good: "validateName ''demo-app'' = None"
    by (simp add: validateName_iff matchesSpecPattern_def specNameChars_def)
  have u1: "userCancels (demoEnv\<lparr>textInputs := [Answer ''my app'', Cancelled]\<rparr>)"
    using bad by (auto simp: userCancels_def demoEnv_def)
  have u2: "userCancels (demoEnv\<lparr>confirmInput := Cancelled\<rparr>)"
    using bad good by (auto simp: userCancels_def demoEnv_def)
  from C9_cancel_exits_zero[OF u2, of demoFs] u1 u2 show ?thesis by simp
qed

end
